theory Spec2Isabelle
  imports Complex_Main "HOL-Library.Log_Nat"
begin

section \<open>CashRake campaign simulator: the model\<close>

text \<open>
  The simulator is one Python module. Its floating-point quantities are modelled as exact
  rationals (\<^typ>\<open>rat\<close>), its integers as \<^typ>\<open>int\<close>, its exceptions as values of
  \<open>error\<close>, and its three data frames as lists of records in row order.
\<close>

subsection \<open>Calendar dates\<close>

text \<open>A \<open>datetime(y, m, d)\<close> value, compared chronologically (year, then month, then day).\<close>

datatype date = Date (year: int) (month: int) (day: int)

definition date_lt :: "date \<Rightarrow> date \<Rightarrow> bool" where
  "date_lt a b \<longleftrightarrow>
     year a < year b \<or>
     (year a = year b \<and> (month a < month b \<or> (month a = month b \<and> day a < day b)))"

datatype error = ValueError string | IllegalMonthError int | KeyError string | SystemExit int

text \<open>\<open>calendar.isleap\<close> and \<open>calendar.mdays\<close>.\<close>

definition isleap :: "int \<Rightarrow> bool" where
  "isleap y \<longleftrightarrow> y mod 4 = 0 \<and> (y mod 100 \<noteq> 0 \<or> y mod 400 = 0)"

definition mdays :: "int \<Rightarrow> int" where
  "mdays m =
     (if m = 2 then 28
      else if m = 4 \<or> m = 6 \<or> m = 9 \<or> m = 11 then 30
      else 31)"

text \<open>
  \<open>month_days(year, month)\<close> is \<open>calendar.monthrange(year, month)[1]\<close>: the number of days
  of the month, 29 for a leap-year February; \<open>monthrange\<close> raises for a month outside 1..12.
\<close>

definition month_days :: "int \<Rightarrow> int \<Rightarrow> error + int" where
  "month_days y m =
     (if \<not> (1 \<le> m \<and> m \<le> 12) then Inl (IllegalMonthError m)
      else Inr (mdays m + (if m = 2 \<and> isleap y then 1 else 0)))"

text \<open>
  \<open>get_month_starts\<close>: the first day of the start date's month, moved forward by
  \<open>i\<close> whole months for \<open>i\<close> in \<open>range(months)\<close>. Adding a month offset to a
  first-of-month date keeps the day at 1 and carries the month into the year.
\<close>

definition add_months :: "date \<Rightarrow> int \<Rightarrow> date" where
  "add_months d i =
     Date (year d + (month d - 1 + i) div 12) ((month d - 1 + i) mod 12 + 1) (day d)"

definition get_month_starts :: "date \<Rightarrow> nat \<Rightarrow> date list" where
  "get_month_starts start_date months =
     (let first = Date (year start_date) (month start_date) 1
      in map (\<lambda>i. add_months first (int i)) [0..<months])"

subsection \<open>Parameters\<close>

definition START_DATE :: date where "START_DATE = Date 2025 11 23"
definition MONTHS :: nat where "MONTHS = 12"

definition STARTING_PLAYERS :: rat where "STARTING_PLAYERS = 1000"
definition AVG_DEPOSIT :: rat where "AVG_DEPOSIT = 100"
definition AVG_BET :: rat where "AVG_BET = 5"
definition WAGER_MULTIPLIER :: rat where "WAGER_MULTIPLIER = 7"

definition CASHBACK_RATE :: rat where "CASHBACK_RATE = 3 / 100"
definition HOUSE_EDGE :: rat where "HOUSE_EDGE = 4 / 100"
definition RAKEBACK_RATE :: rat where "RAKEBACK_RATE = 20 / 100"
definition CAP_RATE :: rat where "CAP_RATE = 33 / 100"

definition ACQ_COST_PER_PLAYER :: rat where "ACQ_COST_PER_PLAYER = 40"
definition RETENTION_RATE :: rat where "RETENTION_RATE = 60 / 100"

definition GROWTH_RATES_MAP :: "int \<rightharpoonup> rat" where
  "GROWTH_RATES_MAP = map_of [(1, 3), (2, 3 / 2), (3, 1 / 2)]"
definition DEFAULT_GROWTH_AFTER :: rat where "DEFAULT_GROWTH_AFTER = 35 / 100"

definition RAKEBACK_PER_WAGER_FRAC :: rat where
  "RAKEBACK_PER_WAGER_FRAC = HOUSE_EDGE * RAKEBACK_RATE"
definition CASHBACK_PER_WAGER_FRAC :: rat where
  "CASHBACK_PER_WAGER_FRAC = HOUSE_EDGE * CASHBACK_RATE"
definition TOTAL_CASHRAKE_PER_WAGER_FRAC :: rat where
  "TOTAL_CASHRAKE_PER_WAGER_FRAC = RAKEBACK_PER_WAGER_FRAC + CASHBACK_PER_WAGER_FRAC"

subsection \<open>Growth parameter of a month\<close>

text \<open>
  \<open>get_growth_for_month\<close> with the lookup table and the default made arguments, so that
  its behaviour can be stated for any table; the function of the module is the instance
  at the module's table and default. \<open>dict.get(idx, default)\<close> is the last branch.
\<close>

definition get_growth_for_month_in :: "(int \<rightharpoonup> rat) \<Rightarrow> rat \<Rightarrow> int \<Rightarrow> rat" where
  "get_growth_for_month_in growth_map dflt idx =
     (if idx \<in> dom growth_map then the (growth_map idx)
      else if idx > 3 then dflt
      else (case growth_map idx of Some v \<Rightarrow> v | None \<Rightarrow> dflt))"

definition get_growth_for_month :: "int \<Rightarrow> rat" where
  "get_growth_for_month idx =
     get_growth_for_month_in GROWTH_RATES_MAP DEFAULT_GROWTH_AFTER idx"

subsection \<open>Monthly recurrence\<close>

record month_record =
  month_index :: int
  month_start :: date
  growth_param :: rat
  growth_model :: string
  retained_players :: rat
  new_players :: rat
  total_players :: rat
  deposits :: rat
  lifetime_deposits :: rat
  lifetime_cap :: rat
  remaining_cap_before :: rat
  expected_cashback :: rat
  expected_rakeback :: rat
  expected_total_cashrake :: rat
  actual_cashrake_paid :: rat
  lifetime_cap_used :: rat
  remaining_cap_after :: rat
  total_wagering :: rat
  gross_revenue :: rat
  acquisition_cost :: rat
  net_profit :: rat

text \<open>
  The player counts of one month, \<open>(retained, new_players, total_players)\<close>, by growth
  model; any other selector raises \<open>ValueError\<close>.
\<close>

definition player_counts :: "string \<Rightarrow> rat \<Rightarrow> rat \<Rightarrow> error + (rat \<times> rat \<times> rat)" where
  "player_counts gm current_players gp =
     (if gm = ''retained_plus_new'' then
        (let retained = current_players * RETENTION_RATE;
             new = current_players * gp;
             tot = retained + new
         in Inr (retained, new, tot))
      else if gm = ''simple_growth'' then
        (let mult = 1 + gp;
             tot = current_players * mult;
             retained = current_players * RETENTION_RATE;
             new = max (tot - retained) 0
         in Inr (retained, new, tot))
      else Inl (ValueError ''Unknown growth_model''))"

text \<open>
  The rest of the loop body: the row of month \<open>m_idx\<close> from the player counts and the two
  accumulators as they stand before the month (\<open>ld0\<close>, \<open>lcu0\<close>). The row records both
  accumulators after their update.
\<close>

definition month_row ::
  "string \<Rightarrow> int \<Rightarrow> date \<Rightarrow> rat \<Rightarrow> rat \<Rightarrow> rat \<Rightarrow> rat \<Rightarrow> rat \<Rightarrow> rat \<Rightarrow> month_record" where
  "month_row gm m_idx mstart gp retained new tot ld0 lcu0 =
     (let deps = tot * AVG_DEPOSIT;
          ld = ld0 + deps;
          cap = ld * CAP_RATE;
          rem_before = max 0 (cap - lcu0);
          wagering = deps * WAGER_MULTIPLIER;
          gross = wagering * HOUSE_EDGE;
          exp_cashback = wagering * CASHBACK_PER_WAGER_FRAC;
          exp_rakeback = wagering * RAKEBACK_PER_WAGER_FRAC;
          exp_total = exp_cashback + exp_rakeback;
          paid = min exp_total rem_before;
          lcu = lcu0 + paid;
          rem_after = max 0 (cap - lcu);
          acq_cost = new * ACQ_COST_PER_PLAYER;
          net = gross - paid - acq_cost
      in \<lparr> month_index = m_idx, month_start = mstart, growth_param = gp,
           growth_model = gm, retained_players = retained, new_players = new,
           total_players = tot, deposits = deps, lifetime_deposits = ld,
           lifetime_cap = cap, remaining_cap_before = rem_before,
           expected_cashback = exp_cashback, expected_rakeback = exp_rakeback,
           expected_total_cashrake = exp_total, actual_cashrake_paid = paid,
           lifetime_cap_used = lcu, remaining_cap_after = rem_after,
           total_wagering = wagering, gross_revenue = gross,
           acquisition_cost = acq_cost, net_profit = net \<rparr>)"

definition month_body ::
  "string \<Rightarrow> rat \<Rightarrow> rat \<Rightarrow> rat \<Rightarrow> int \<Rightarrow> date \<Rightarrow> error + month_record" where
  "month_body gm current_players ld0 lcu0 m_idx mstart =
     (let gp = get_growth_for_month m_idx
      in case player_counts gm current_players gp of
           Inl e \<Rightarrow> Inl e
         | Inr (retained, new, tot) \<Rightarrow>
             Inr (month_row gm m_idx mstart gp retained new tot ld0 lcu0))"

text \<open>
  The loop over \<open>enumerate(month_starts, start=1)\<close>. The state carried from month to month
  is \<open>current_players\<close>, \<open>lifetime_deposits\<close> and \<open>lifetime_cap_used\<close>; after a month it is
  what the month's row holds in \<open>total_players\<close>, \<open>lifetime_deposits\<close> and
  \<open>lifetime_cap_used\<close>. An exception in a month ends the loop with that exception.
\<close>

fun months_loop ::
  "string \<Rightarrow> rat \<Rightarrow> rat \<Rightarrow> rat \<Rightarrow> (int \<times> date) list \<Rightarrow> error + month_record list" where
  "months_loop gm current_players ld lcu [] = Inr []"
| "months_loop gm current_players ld lcu ((m_idx, mstart) # rest) =
     (case month_body gm current_players ld lcu m_idx mstart of
        Inl e \<Rightarrow> Inl e
      | Inr row \<Rightarrow>
          (case months_loop gm (total_players row) (lifetime_deposits row)
                  (lifetime_cap_used row) rest of
             Inl e \<Rightarrow> Inl e
           | Inr rows \<Rightarrow> Inr (row # rows)))"

definition enumerate1 :: "'a list \<Rightarrow> (int \<times> 'a) list" where
  "enumerate1 xs = zip (map (\<lambda>i. int i + 1) [0..<length xs]) xs"

definition monthly_rows :: "date \<Rightarrow> nat \<Rightarrow> string \<Rightarrow> error + month_record list" where
  "monthly_rows start_date months gm =
     months_loop gm STARTING_PLAYERS 0 0 (enumerate1 (get_month_starts start_date months))"

subsection \<open>Daily table\<close>

record daily_record =
  date :: date
  month_index :: int
  players :: rat
  deposits :: rat
  total_wagering :: rat
  gross_revenue :: rat
  expected_cashback :: rat
  expected_rakeback :: rat
  expected_total_cashrake :: rat
  actual_cashrake_paid :: rat
  acquisition_cost :: rat
  net_profit :: rat

text \<open>The entry appended to \<open>daily_list\<close> for day \<open>d\<close> of the month of row \<open>r\<close>.\<close>

definition daily_entry :: "month_record \<Rightarrow> int \<Rightarrow> int \<Rightarrow> int \<Rightarrow> int \<Rightarrow> daily_record" where
  "daily_entry r y m ndays d =
     (let frac = 1 / of_int ndays
      in \<lparr> date = Date y m d,
           daily_record.month_index = month_record.month_index r,
           players = month_record.total_players r * frac,
           daily_record.deposits = month_record.deposits r * frac,
           daily_record.total_wagering = month_record.total_wagering r * frac,
           daily_record.gross_revenue = month_record.gross_revenue r * frac,
           daily_record.expected_cashback = month_record.expected_cashback r * frac,
           daily_record.expected_rakeback = month_record.expected_rakeback r * frac,
           daily_record.expected_total_cashrake = month_record.expected_total_cashrake r * frac,
           daily_record.actual_cashrake_paid = month_record.actual_cashrake_paid r * frac,
           daily_record.acquisition_cost = month_record.acquisition_cost r * frac,
           daily_record.net_profit = month_record.net_profit r * frac \<rparr>)"

text \<open>The inner loop \<open>for d in range(1, ndays+1)\<close> for one monthly row.\<close>

definition daily_of_month :: "month_record \<Rightarrow> error + daily_record list" where
  "daily_of_month r =
     (let y = year (month_start r); m = month (month_start r)
      in case month_days y m of
           Inl e \<Rightarrow> Inl e
         | Inr ndays \<Rightarrow> Inr (map (daily_entry r y m ndays) [1..ndays]))"

fun daily_loop :: "month_record list \<Rightarrow> error + daily_record list" where
  "daily_loop [] = Inr []"
| "daily_loop (r # rs) =
     (case daily_of_month r of
        Inl e \<Rightarrow> Inl e
      | Inr ds \<Rightarrow>
          (case daily_loop rs of
             Inl e \<Rightarrow> Inl e
           | Inr rest \<Rightarrow> Inr (ds @ rest)))"

subsection \<open>Calendar weeks\<close>

text \<open>
  The proleptic Gregorian ordinal of a date (day 1 is 0001-01-01, a Monday) and the day of
  the week, Monday being 0, as \<open>datetime\<close> computes them.
\<close>

definition days_in_month :: "int \<Rightarrow> int \<Rightarrow> int" where
  "days_in_month y m = mdays m + (if m = 2 \<and> isleap y then 1 else 0)"

definition days_before_year :: "int \<Rightarrow> int" where
  "days_before_year y' =
     (let y = y' - 1 in y * 365 + y div 4 - y div 100 + y div 400)"

definition days_before_month :: "int \<Rightarrow> int \<Rightarrow> int" where
  "days_before_month y m = sum_list (map (days_in_month y) [1..m - 1])"

definition toordinal :: "date \<Rightarrow> int" where
  "toordinal d = days_before_year (year d) + days_before_month (year d) (month d) + day d"

definition weekday :: "date \<Rightarrow> int" where
  "weekday d = (toordinal d + 6) mod 7"

text \<open>The calendar day before a date, and the date \<open>n\<close> days before a date.\<close>

definition prev_day :: "date \<Rightarrow> date" where
  "prev_day d =
     (if day d > 1 then Date (year d) (month d) (day d - 1)
      else if month d > 1 then
        Date (year d) (month d - 1) (days_in_month (year d) (month d - 1))
      else Date (year d - 1) 12 31)"

fun minus_days :: "date \<Rightarrow> nat \<Rightarrow> date" where
  "minus_days d 0 = d"
| "minus_days d (Suc n) = minus_days (prev_day d) n"

text \<open>
  \<open>date.dt.to_period('W')\<close> is the week ending on Sunday that contains the date, and
  \<open>start_time.date()\<close> its first day: the Monday on or before the date.
\<close>

definition week_start_of :: "date \<Rightarrow> date" where
  "week_start_of d = minus_days d (nat (weekday d))"

record daily_row = daily_record +
  week_start :: date

definition add_week_start :: "daily_record \<Rightarrow> daily_row" where
  "add_week_start r = daily_record.extend r \<lparr> week_start = week_start_of (date r) \<rparr>"

subsection \<open>Weekly table\<close>

record weekly_record =
  week_start :: date
  month_index :: int
  players :: rat
  deposits :: rat
  total_wagering :: rat
  gross_revenue :: rat
  expected_cashback :: rat
  expected_rakeback :: rat
  expected_total_cashrake :: rat
  actual_cashrake_paid :: rat
  acquisition_cost :: rat
  net_profit :: rat

text \<open>
  \<open>groupby('week_start', as_index=False)[numeric_cols].sum()\<close>, row by row: a daily row
  opens the group of its week when the week is new and is added, column by column, to
  the group's sums otherwise; the groups are kept in the order of their keys, which is
  the order \<open>groupby\<close> returns them in. The numeric columns are \<open>month_index\<close> and
  the ten amounts.
\<close>

definition new_group :: "daily_row \<Rightarrow> weekly_record" where
  "new_group d =
     \<lparr> weekly_record.week_start = daily_row.week_start d,
       weekly_record.month_index = daily_record.month_index d,
       weekly_record.players = daily_record.players d,
       weekly_record.deposits = daily_record.deposits d,
       weekly_record.total_wagering = daily_record.total_wagering d,
       weekly_record.gross_revenue = daily_record.gross_revenue d,
       weekly_record.expected_cashback = daily_record.expected_cashback d,
       weekly_record.expected_rakeback = daily_record.expected_rakeback d,
       weekly_record.expected_total_cashrake = daily_record.expected_total_cashrake d,
       weekly_record.actual_cashrake_paid = daily_record.actual_cashrake_paid d,
       weekly_record.acquisition_cost = daily_record.acquisition_cost d,
       weekly_record.net_profit = daily_record.net_profit d \<rparr>"

definition add_to_group :: "weekly_record \<Rightarrow> daily_row \<Rightarrow> weekly_record" where
  "add_to_group w d =
     \<lparr> weekly_record.week_start = weekly_record.week_start w,
       weekly_record.month_index = weekly_record.month_index w + daily_record.month_index d,
       weekly_record.players = weekly_record.players w + daily_record.players d,
       weekly_record.deposits = weekly_record.deposits w + daily_record.deposits d,
       weekly_record.total_wagering =
         weekly_record.total_wagering w + daily_record.total_wagering d,
       weekly_record.gross_revenue =
         weekly_record.gross_revenue w + daily_record.gross_revenue d,
       weekly_record.expected_cashback =
         weekly_record.expected_cashback w + daily_record.expected_cashback d,
       weekly_record.expected_rakeback =
         weekly_record.expected_rakeback w + daily_record.expected_rakeback d,
       weekly_record.expected_total_cashrake =
         weekly_record.expected_total_cashrake w + daily_record.expected_total_cashrake d,
       weekly_record.actual_cashrake_paid =
         weekly_record.actual_cashrake_paid w + daily_record.actual_cashrake_paid d,
       weekly_record.acquisition_cost =
         weekly_record.acquisition_cost w + daily_record.acquisition_cost d,
       weekly_record.net_profit = weekly_record.net_profit w + daily_record.net_profit d \<rparr>"

fun group_insert :: "daily_row \<Rightarrow> weekly_record list \<Rightarrow> weekly_record list" where
  "group_insert d [] = [new_group d]"
| "group_insert d (w # ws) =
     (if daily_row.week_start d = weekly_record.week_start w then add_to_group w d # ws
      else if date_lt (daily_row.week_start d) (weekly_record.week_start w)
        then new_group d # w # ws
      else w # group_insert d ws)"

definition groupby_week_sum :: "daily_row list \<Rightarrow> weekly_record list" where
  "groupby_week_sum ds = foldl (\<lambda>ws d. group_insert d ws) [] ds"

subsection \<open>The simulation and the command line\<close>

text \<open>
  \<open>simulate\<close> reads the module's \<open>START_DATE\<close> and \<open>MONTHS\<close>; \<open>simulate_cfg\<close> is its body with
  the two as arguments. With no month at all the daily frame has no column \<open>date\<close> and
  reading it raises \<open>KeyError\<close>.
\<close>

definition simulate_cfg ::
  "date \<Rightarrow> nat \<Rightarrow> string \<Rightarrow>
     error + (month_record list \<times> weekly_record list \<times> daily_row list)" where
  "simulate_cfg start_date months gm =
     (case monthly_rows start_date months gm of
        Inl e \<Rightarrow> Inl e
      | Inr monthly_df \<Rightarrow>
          (case daily_loop monthly_df of
             Inl e \<Rightarrow> Inl e
           | Inr daily_list \<Rightarrow>
               if daily_list = [] then Inl (KeyError ''date'')
               else
                 (let daily_df = map add_week_start daily_list;
                      weekly_df = groupby_week_sum daily_df
                  in Inr (monthly_df, weekly_df, daily_df))))"

definition simulate ::
  "string \<Rightarrow> error + (month_record list \<times> weekly_record list \<times> daily_row list)" where
  "simulate gm = simulate_cfg START_DATE MONTHS gm"

text \<open>
  \<open>main\<close>, as a function of the value given to \<open>--growth-model\<close> (\<open>None\<close> when the flag is
  absent): the argument parser takes the default for an absent flag and exits with status
  2 on a value outside the choices; otherwise the tables of \<open>simulate\<close> go on to be
  printed and saved.
\<close>

definition growth_model_choices :: "string list" where
  "growth_model_choices = [''retained_plus_new'', ''simple_growth'']"

definition parse_args :: "string option \<Rightarrow> error + string" where
  "parse_args arg =
     (case arg of
        None \<Rightarrow> Inr ''retained_plus_new''
      | Some v \<Rightarrow> if v \<in> set growth_model_choices then Inr v else Inl (SystemExit 2))"

definition main ::
  "string option \<Rightarrow> error + (month_record list \<times> weekly_record list \<times> daily_row list)" where
  "main arg =
     (case parse_args arg of
        Inl e \<Rightarrow> Inl e
      | Inr gm \<Rightarrow> simulate gm)"

section \<open>The same program in double-precision arithmetic\<close>

text \<open>
  The amounts of the program are IEEE 754 binary64 numbers. A finite double is a rational
  with a 53-bit significand; \<open>fl\<close> rounds a rational to the nearest double, ties to the
  even significand, as every arithmetic operation of the program does with its exact
  result. The exponent range is not modelled: the amounts of the simulation stay far
  from overflow and underflow.
\<close>

definition pow2 :: "int \<Rightarrow> rat" where
  "pow2 k = (if 0 \<le> k then 2 ^ nat k else 1 / 2 ^ nat (- k))"

text \<open>The exponent of the leading bit of a positive rational: \<open>pow2 e \<le> x < pow2 (e + 1)\<close>.\<close>

definition ilog2 :: "rat \<Rightarrow> int" where
  "ilog2 x = (if 1 \<le> x then bitlen \<lfloor>x\<rfloor> - 1 else - bitlen (\<lceil>1 / x\<rceil> - 1))"

definition nearest_even :: "rat \<Rightarrow> int \<Rightarrow> int" where
  "nearest_even y f =
     (if y - of_int f < 1 / 2 then f
      else if 1 / 2 < y - of_int f then f + 1
      else if even f then f else f + 1)"

definition round_half_even :: "rat \<Rightarrow> int" where
  "round_half_even y = nearest_even y \<lfloor>y\<rfloor>"

definition round_to :: "rat \<Rightarrow> rat \<Rightarrow> rat" where
  "round_to u a = of_int (round_half_even (a / u)) * u"

text \<open>The spacing of the doubles around a positive rational.\<close>

definition ulp :: "rat \<Rightarrow> rat" where
  "ulp a = pow2 (ilog2 a - 52)"

definition fl :: "rat \<Rightarrow> rat" where
  "fl x =
     (if x = 0 then 0
      else if 0 < x then round_to (ulp x) x
      else - round_to (ulp (- x)) (- x))"


definition dadd :: "rat \<Rightarrow> rat \<Rightarrow> rat" where "dadd a b = fl (a + b)"
definition dsub :: "rat \<Rightarrow> rat \<Rightarrow> rat" where "dsub a b = fl (a - b)"
definition dmul :: "rat \<Rightarrow> rat \<Rightarrow> rat" where "dmul a b = fl (a * b)"
definition ddiv :: "rat \<Rightarrow> rat \<Rightarrow> rat" where "ddiv a b = fl (a / b)"









text \<open>
  The weekly sum of a group in doubles: the group starts with the amounts of its first
  daily row, and every further row of the week is added with one rounded addition per
  column, in the order of the rows. \<open>month_index\<close> is an integer column and is added
  exactly. The summation of \<open>groupby(...).sum()\<close> is library code; it is modelled here
  as plain double additions in row order.
\<close>

definition add_to_group_fl :: "weekly_record \<Rightarrow> daily_row \<Rightarrow> weekly_record" where
  "add_to_group_fl w d =
     \<lparr> weekly_record.week_start = weekly_record.week_start w,
       weekly_record.month_index = weekly_record.month_index w + daily_record.month_index d,
       weekly_record.players = dadd (weekly_record.players w) (daily_record.players d),
       weekly_record.deposits = dadd (weekly_record.deposits w) (daily_record.deposits d),
       weekly_record.total_wagering =
         dadd (weekly_record.total_wagering w) (daily_record.total_wagering d),
       weekly_record.gross_revenue =
         dadd (weekly_record.gross_revenue w) (daily_record.gross_revenue d),
       weekly_record.expected_cashback =
         dadd (weekly_record.expected_cashback w) (daily_record.expected_cashback d),
       weekly_record.expected_rakeback =
         dadd (weekly_record.expected_rakeback w) (daily_record.expected_rakeback d),
       weekly_record.expected_total_cashrake =
         dadd (weekly_record.expected_total_cashrake w)
           (daily_record.expected_total_cashrake d),
       weekly_record.actual_cashrake_paid =
         dadd (weekly_record.actual_cashrake_paid w) (daily_record.actual_cashrake_paid d),
       weekly_record.acquisition_cost =
         dadd (weekly_record.acquisition_cost w) (daily_record.acquisition_cost d),
       weekly_record.net_profit =
         dadd (weekly_record.net_profit w) (daily_record.net_profit d) \<rparr>"

fun group_insert_fl :: "daily_row \<Rightarrow> weekly_record list \<Rightarrow> weekly_record list" where
  "group_insert_fl d [] = [new_group d]"
| "group_insert_fl d (w # ws) =
     (if daily_row.week_start d = weekly_record.week_start w then add_to_group_fl w d # ws
      else if date_lt (daily_row.week_start d) (weekly_record.week_start w)
        then new_group d # w # ws
      else w # group_insert_fl d ws)"

definition groupby_week_sum_fl :: "daily_row list \<Rightarrow> weekly_record list" where
  "groupby_week_sum_fl ds = foldl (\<lambda>ws d. group_insert_fl d ws) [] ds"



section \<open>Predicates used in the statements\<close>

text \<open>The two growth models \<open>simulate\<close> accepts.\<close>

definition valid_model :: "string \<Rightarrow> bool" where
  "valid_model gm \<longleftrightarrow> gm = ''retained_plus_new'' \<or> gm = ''simple_growth''"

text \<open>Every column of a monthly row other than \<open>net_profit\<close> is non-negative.\<close>

definition nonneg_month :: "month_record \<Rightarrow> bool" where
  "nonneg_month r \<longleftrightarrow>
     0 \<le> retained_players r \<and> 0 \<le> new_players r \<and> 0 \<le> total_players r \<and>
     0 \<le> month_record.deposits r \<and> 0 \<le> lifetime_deposits r \<and> 0 \<le> lifetime_cap r \<and>
     0 \<le> remaining_cap_before r \<and> 0 \<le> remaining_cap_after r \<and>
     0 \<le> month_record.expected_cashback r \<and> 0 \<le> month_record.expected_rakeback r \<and>
     0 \<le> month_record.expected_total_cashrake r \<and>
     0 \<le> month_record.actual_cashrake_paid r \<and> 0 \<le> lifetime_cap_used r \<and>
     0 \<le> month_record.total_wagering r \<and> 0 \<le> month_record.gross_revenue r \<and>
     0 \<le> month_record.acquisition_cost r"

text \<open>The month of a row's start date is a calendar month.\<close>

definition valid_month_start :: "month_record \<Rightarrow> bool" where
  "valid_month_start r \<longleftrightarrow> 1 \<le> month (month_start r) \<and> month (month_start r) \<le> 12"

text \<open>The rows of the daily table that belong to the month with index \<open>k\<close>.\<close>

definition days_of_month_index :: "int \<Rightarrow> daily_row list \<Rightarrow> daily_row list" where
  "days_of_month_index k daily_df = filter (\<lambda>d. daily_record.month_index d = k) daily_df"

text \<open>Each amount of a daily row is the month's amount divided by the number of days.\<close>

definition daily_share :: "month_record \<Rightarrow> int \<Rightarrow> daily_row \<Rightarrow> bool" where
  "daily_share r ndays d \<longleftrightarrow>
     daily_record.players d = month_record.total_players r / of_int ndays \<and>
     daily_record.deposits d = month_record.deposits r / of_int ndays \<and>
     daily_record.total_wagering d = month_record.total_wagering r / of_int ndays \<and>
     daily_record.gross_revenue d = month_record.gross_revenue r / of_int ndays \<and>
     daily_record.expected_cashback d = month_record.expected_cashback r / of_int ndays \<and>
     daily_record.expected_rakeback d = month_record.expected_rakeback r / of_int ndays \<and>
     daily_record.expected_total_cashrake d =
       month_record.expected_total_cashrake r / of_int ndays \<and>
     daily_record.actual_cashrake_paid d =
       month_record.actual_cashrake_paid r / of_int ndays \<and>
     daily_record.acquisition_cost d = month_record.acquisition_cost r / of_int ndays \<and>
     daily_record.net_profit d = month_record.net_profit r / of_int ndays"

text \<open>Each amount, summed over daily rows, gives back the month's amount.\<close>

definition daily_sums_to :: "month_record \<Rightarrow> daily_row list \<Rightarrow> bool" where
  "daily_sums_to r ds \<longleftrightarrow>
     sum_list (map daily_record.players ds) = month_record.total_players r \<and>
     sum_list (map daily_record.deposits ds) = month_record.deposits r \<and>
     sum_list (map daily_record.total_wagering ds) = month_record.total_wagering r \<and>
     sum_list (map daily_record.gross_revenue ds) = month_record.gross_revenue r \<and>
     sum_list (map daily_record.expected_cashback ds) = month_record.expected_cashback r \<and>
     sum_list (map daily_record.expected_rakeback ds) = month_record.expected_rakeback r \<and>
     sum_list (map daily_record.expected_total_cashrake ds) =
       month_record.expected_total_cashrake r \<and>
     sum_list (map daily_record.actual_cashrake_paid ds) =
       month_record.actual_cashrake_paid r \<and>
     sum_list (map daily_record.acquisition_cost ds) = month_record.acquisition_cost r \<and>
     sum_list (map daily_record.net_profit ds) = month_record.net_profit r"


text \<open>The rows of the daily table whose week starts on \<open>k\<close>.\<close>

definition week_of :: "date \<Rightarrow> daily_row list \<Rightarrow> daily_row list" where
  "week_of k daily_df = filter (\<lambda>d. daily_row.week_start d = k) daily_df"





section \<open>Properties\<close>

subsection \<open>The monthly loop\<close>

lemma growth_nonneg: "0 \<le> get_growth_for_month idx"
  by (simp add: get_growth_for_month_def get_growth_for_month_in_def GROWTH_RATES_MAP_def
      DEFAULT_GROWTH_AFTER_def dom_def)

lemma player_counts_valid:
  assumes "valid_model gm"
  shows "\<exists>ret new tot. player_counts gm cp gp = Inr (ret, new, tot)"
  using assms by (auto simp: valid_model_def player_counts_def Let_def)

lemma player_counts_invalid:
  assumes "\<not> valid_model gm"
  shows "player_counts gm cp gp = Inl (ValueError ''Unknown growth_model'')"
  using assms by (simp add: valid_model_def player_counts_def)

lemma player_counts_nonneg:
  assumes "player_counts gm cp gp = Inr (ret, new, tot)" and "0 \<le> cp" and "0 \<le> gp"
  shows "0 \<le> ret \<and> 0 \<le> new \<and> 0 \<le> tot"
  using assms
  by (auto simp: player_counts_def Let_def RETENTION_RATE_def split: if_splits)

lemma month_body_cases:
  assumes "month_body gm cp ld lcu i s = Inr row"
  obtains ret new tot where
    "player_counts gm cp (get_growth_for_month i) = Inr (ret, new, tot)"
    "row = month_row gm i s (get_growth_for_month i) ret new tot ld lcu"
  using assms by (auto simp: month_body_def Let_def split: sum.splits)

lemma month_body_valid:
  assumes "valid_model gm"
  shows "\<exists>row. month_body gm cp ld lcu i s = Inr row"
proof -
  obtain ret new tot where "player_counts gm cp (get_growth_for_month i) = Inr (ret, new, tot)"
    using player_counts_valid [OF assms] by blast
  then show ?thesis by (simp add: month_body_def)
qed

lemma month_body_invalid:
  assumes "\<not> valid_model gm"
  shows "month_body gm cp ld lcu i s = Inl (ValueError ''Unknown growth_model'')"
  by (simp add: month_body_def player_counts_invalid [OF assms])

lemma months_loop_Inr_Cons:
  assumes "months_loop gm cp ld lcu ((i, s) # ms) = Inr rows"
  obtains row rest where "rows = row # rest"
    "month_body gm cp ld lcu i s = Inr row"
    "months_loop gm (total_players row) (lifetime_deposits row) (lifetime_cap_used row) ms = Inr rest"
  using assms by (auto split: sum.splits)

lemma months_loop_valid:
  assumes "valid_model gm"
  shows "\<exists>rows. months_loop gm cp ld lcu ms = Inr rows"
proof (induction ms arbitrary: cp ld lcu)
  case Nil
  show ?case by simp
next
  case (Cons p ms)
  obtain i s where p: "p = (i, s)" by (cases p)
  obtain row where row: "month_body gm cp ld lcu i s = Inr row"
    using month_body_valid [OF assms] by blast
  obtain rest where
    "months_loop gm (total_players row) (lifetime_deposits row) (lifetime_cap_used row) ms = Inr rest"
    using Cons.IH by blast
  with row p show ?case by simp
qed

lemma months_loop_invalid:
  assumes "\<not> valid_model gm" and "ms \<noteq> []"
  shows "months_loop gm cp ld lcu ms = Inl (ValueError ''Unknown growth_model'')"
proof (cases ms)
  case Nil
  with assms show ?thesis by simp
next
  case (Cons p rest)
  obtain i s where "p = (i, s)" by (cases p)
  with Cons show ?thesis by (simp add: month_body_invalid [OF assms(1)])
qed

lemma months_loop_columns:
  assumes "months_loop gm cp ld lcu ms = Inr rows"
  shows "map month_record.month_index rows = map fst ms \<and> map month_start rows = map snd ms"
  using assms
proof (induction ms arbitrary: cp ld lcu rows)
  case Nil
  then show ?case by simp
next
  case (Cons p ms)
  obtain i s where p: "p = (i, s)" by (cases p)
  from Cons.prems p have "months_loop gm cp ld lcu ((i, s) # ms) = Inr rows" by simp
  then obtain row rest where r: "rows = row # rest"
    "month_body gm cp ld lcu i s = Inr row"
    "months_loop gm (total_players row) (lifetime_deposits row) (lifetime_cap_used row) ms = Inr rest"
    by (rule months_loop_Inr_Cons)
  from r(2) have "month_record.month_index row = i \<and> month_start row = s"
    by (auto elim!: month_body_cases simp: month_row_def Let_def)
  with Cons.IH [OF r(3)] r(1) p show ?case by simp
qed


lemma months_loop_rows:
  assumes "months_loop gm cp ld lcu ms = Inr rows" and "r \<in> set rows"
  shows "\<exists>i s gp ret new tot ld0 lcu0. r = month_row gm i s gp ret new tot ld0 lcu0"
  using assms
proof (induction ms arbitrary: cp ld lcu rows)
  case Nil
  then show ?case by simp
next
  case (Cons p ms)
  obtain i s where p: "p = (i, s)" by (cases p)
  from Cons.prems(1) p have "months_loop gm cp ld lcu ((i, s) # ms) = Inr rows" by simp
  then obtain row rest where r: "rows = row # rest"
    "month_body gm cp ld lcu i s = Inr row"
    "months_loop gm (total_players row) (lifetime_deposits row) (lifetime_cap_used row) ms = Inr rest"
    by (rule months_loop_Inr_Cons)
  show ?case
  proof (cases "r = row")
    case True
    from r(2) obtain ret new tot where
      "row = month_row gm i s (get_growth_for_month i) ret new tot ld lcu"
      by (rule month_body_cases)
    with True show ?thesis by blast
  next
    case False
    with Cons.prems(2) r(1) have "r \<in> set rest" by simp
    with Cons.IH [OF r(3)] show ?thesis by blast
  qed
qed

lemma month_row_step:
  assumes "0 \<le> tot" and "lcu0 \<le> ld0 * CAP_RATE"
    and row_def: "row = month_row gm i s gp ret new tot ld0 lcu0"
  shows "lcu0 \<le> lifetime_cap_used row"
    and "lifetime_cap_used row \<le> lifetime_cap row"
    and "lifetime_cap row = lifetime_deposits row * CAP_RATE"
proof -
  have deps: "0 \<le> tot * AVG_DEPOSIT" using assms(1) by (simp add: AVG_DEPOSIT_def)
  have cap: "lcu0 \<le> (ld0 + tot * AVG_DEPOSIT) * CAP_RATE"
  proof -
    have "ld0 * CAP_RATE \<le> (ld0 + tot * AVG_DEPOSIT) * CAP_RATE"
      using deps by (simp add: CAP_RATE_def)
    with assms(2) show ?thesis by simp
  qed
  have ex: "0 \<le> tot * AVG_DEPOSIT * WAGER_MULTIPLIER * CASHBACK_PER_WAGER_FRAC
              + tot * AVG_DEPOSIT * WAGER_MULTIPLIER * RAKEBACK_PER_WAGER_FRAC"
    using assms(1)
    by (simp add: AVG_DEPOSIT_def WAGER_MULTIPLIER_def CASHBACK_PER_WAGER_FRAC_def
        RAKEBACK_PER_WAGER_FRAC_def HOUSE_EDGE_def CASHBACK_RATE_def RAKEBACK_RATE_def)
  show "lcu0 \<le> lifetime_cap_used row"
    using cap ex by (simp add: row_def month_row_def Let_def)
  show "lifetime_cap_used row \<le> lifetime_cap row"
    using cap ex by (simp add: row_def month_row_def Let_def min_def)
  show "lifetime_cap row = lifetime_deposits row * CAP_RATE"
    by (simp add: row_def month_row_def Let_def)
qed

lemma months_loop_cap_invariant:
  assumes "months_loop gm cp ld lcu ms = Inr rows" and "0 \<le> cp" and "lcu \<le> ld * CAP_RATE"
  shows "sorted (lcu # map lifetime_cap_used rows) \<and>
         (\<forall>r\<in>set rows. lifetime_cap_used r \<le> lifetime_cap r)"
  using assms
proof (induction ms arbitrary: cp ld lcu rows)
  case Nil
  then show ?case by simp
next
  case (Cons p ms)
  obtain i s where p: "p = (i, s)" by (cases p)
  from Cons.prems(1) p have "months_loop gm cp ld lcu ((i, s) # ms) = Inr rows" by simp
  then obtain row rest where r: "rows = row # rest"
    "month_body gm cp ld lcu i s = Inr row"
    "months_loop gm (total_players row) (lifetime_deposits row) (lifetime_cap_used row) ms = Inr rest"
    by (rule months_loop_Inr_Cons)
  from r(2) obtain ret new tot where
    pc: "player_counts gm cp (get_growth_for_month i) = Inr (ret, new, tot)" and
    row: "row = month_row gm i s (get_growth_for_month i) ret new tot ld lcu"
    by (rule month_body_cases)
  have tot: "0 \<le> tot"
    using player_counts_nonneg [OF pc Cons.prems(2) growth_nonneg] by simp
  have tp: "total_players row = tot" by (simp add: row month_row_def Let_def)
  note st = month_row_step [OF tot Cons.prems(3) row]
  have "lifetime_cap_used row \<le> lifetime_deposits row * CAP_RATE"
    using st(2) st(3) by simp
  from Cons.IH [OF r(3) _ this] tot tp
  have ih: "sorted (lifetime_cap_used row # map lifetime_cap_used rest)"
    "\<forall>r\<in>set rest. lifetime_cap_used r \<le> lifetime_cap r" by simp_all
  from ih(1) st(1) have "sorted (lcu # lifetime_cap_used row # map lifetime_cap_used rest)"
    by auto
  with ih(2) st(2) r(1) show ?case by simp
qed


lemma month_row_nonneg:
  assumes "0 \<le> ret" "0 \<le> new" "0 \<le> tot" "0 \<le> ld0" "0 \<le> lcu0"
  shows "nonneg_month (month_row gm i s gp ret new tot ld0 lcu0)"
proof -
  have w: "0 \<le> tot * AVG_DEPOSIT * WAGER_MULTIPLIER"
    using assms(3) by (simp add: AVG_DEPOSIT_def WAGER_MULTIPLIER_def)
  have cb: "0 \<le> tot * AVG_DEPOSIT * WAGER_MULTIPLIER * CASHBACK_PER_WAGER_FRAC"
    using assms(3)
    by (simp add: AVG_DEPOSIT_def WAGER_MULTIPLIER_def CASHBACK_PER_WAGER_FRAC_def
        HOUSE_EDGE_def CASHBACK_RATE_def)
  have rb: "0 \<le> tot * AVG_DEPOSIT * WAGER_MULTIPLIER * RAKEBACK_PER_WAGER_FRAC"
    using assms(3)
    by (simp add: AVG_DEPOSIT_def WAGER_MULTIPLIER_def RAKEBACK_PER_WAGER_FRAC_def
        HOUSE_EDGE_def RAKEBACK_RATE_def)
  have gr: "0 \<le> tot * AVG_DEPOSIT * WAGER_MULTIPLIER * HOUSE_EDGE"
    using assms(3) by (simp add: AVG_DEPOSIT_def WAGER_MULTIPLIER_def HOUSE_EDGE_def)
  have ld: "0 \<le> ld0 + tot * AVG_DEPOSIT"
    using assms(3,4) by (simp add: AVG_DEPOSIT_def)
  have cap: "0 \<le> (ld0 + tot * AVG_DEPOSIT) * CAP_RATE"
    using ld by (simp add: CAP_RATE_def)
  have dep: "0 \<le> tot * AVG_DEPOSIT" using assms(3) by (simp add: AVG_DEPOSIT_def)
  have acq: "0 \<le> new * ACQ_COST_PER_PLAYER"
    using assms(2) by (simp add: ACQ_COST_PER_PLAYER_def)
  show ?thesis
    using assms w cb rb gr ld cap dep acq
    by (simp add: nonneg_month_def month_row_def Let_def)
qed

lemma months_loop_nonneg:
  assumes "months_loop gm cp ld lcu ms = Inr rows" and "0 \<le> cp" and "0 \<le> ld" and "0 \<le> lcu"
  shows "\<forall>r\<in>set rows. nonneg_month r"
  using assms
proof (induction ms arbitrary: cp ld lcu rows)
  case Nil
  then show ?case by simp
next
  case (Cons p ms)
  obtain i s where p: "p = (i, s)" by (cases p)
  from Cons.prems(1) p have "months_loop gm cp ld lcu ((i, s) # ms) = Inr rows" by simp
  then obtain row rest where r: "rows = row # rest"
    "month_body gm cp ld lcu i s = Inr row"
    "months_loop gm (total_players row) (lifetime_deposits row) (lifetime_cap_used row) ms = Inr rest"
    by (rule months_loop_Inr_Cons)
  from r(2) obtain ret new tot where
    pc: "player_counts gm cp (get_growth_for_month i) = Inr (ret, new, tot)" and
    row: "row = month_row gm i s (get_growth_for_month i) ret new tot ld lcu"
    by (rule month_body_cases)
  from player_counts_nonneg [OF pc Cons.prems(2) growth_nonneg]
  have nn: "nonneg_month row"
    unfolding row using Cons.prems(3,4) by (intro month_row_nonneg) simp_all
  then have "0 \<le> total_players row" "0 \<le> lifetime_deposits row" "0 \<le> lifetime_cap_used row"
    by (simp_all add: nonneg_month_def)
  from Cons.IH [OF r(3) this] nn r(1) show ?case by simp
qed

subsection \<open>The daily loop\<close>

lemma days_in_month_bounds: "28 \<le> days_in_month y m \<and> days_in_month y m \<le> 31"
  by (simp add: days_in_month_def mdays_def)

lemma month_days_valid:
  assumes "1 \<le> m" and "m \<le> 12"
  shows "month_days y m = Inr (days_in_month y m)"
  using assms by (simp add: month_days_def days_in_month_def)

lemma get_month_starts_valid:
  assumes "s \<in> set (get_month_starts sd n)"
  shows "1 \<le> month s \<and> month s \<le> 12 \<and> day s = 1"
  using assms by (auto simp: get_month_starts_def add_months_def Let_def)

lemma length_get_month_starts: "length (get_month_starts sd n) = n"
  by (simp add: get_month_starts_def Let_def)

lemma daily_of_month_valid:
  assumes "valid_month_start r"
  shows "daily_of_month r =
     Inr (map (daily_entry r (year (month_start r)) (month (month_start r))
                 (days_in_month (year (month_start r)) (month (month_start r))))
           [1..days_in_month (year (month_start r)) (month (month_start r))])"
  using assms by (simp add: daily_of_month_def valid_month_start_def month_days_valid Let_def)

lemma daily_of_month_Inr:
  assumes "daily_of_month r = Inr ds"
  shows "valid_month_start r"
  using assms
  by (auto simp: daily_of_month_def Let_def month_days_def valid_month_start_def
      split: sum.splits if_splits)

lemma daily_of_month_nonempty:
  assumes "daily_of_month r = Inr ds"
  shows "ds \<noteq> []"
proof -
  let ?n = "days_in_month (year (month_start r)) (month (month_start r))"
  have "1 \<le> ?n"
    using days_in_month_bounds [of "year (month_start r)" "month (month_start r)"]
    by linarith
  then have "[1..?n] \<noteq> []" by (simp add: upto.simps)
  moreover have "ds = map (daily_entry r (year (month_start r)) (month (month_start r)) ?n)
      [1..?n]"
    using assms daily_of_month_valid [OF daily_of_month_Inr [OF assms]] by simp
  ultimately show ?thesis by (metis map_is_Nil_conv)
qed

lemma daily_loop_valid:
  assumes "\<forall>r\<in>set rows. valid_month_start r"
  shows "\<exists>ds. daily_loop rows = Inr ds"
  using assms
proof (induction rows)
  case Nil
  show ?case by simp
next
  case (Cons r rows)
  then obtain ds where "daily_loop rows = Inr ds" by auto
  moreover have "valid_month_start r" using Cons.prems by simp
  ultimately show ?case by (simp add: daily_of_month_valid)
qed

lemma daily_loop_nonempty:
  assumes "daily_loop rows = Inr ds" and "rows \<noteq> []"
  shows "ds \<noteq> []"
proof (cases rows)
  case Nil
  with assms show ?thesis by simp
next
  case (Cons r rest)
  with assms(1) obtain d1 where "daily_of_month r = Inr d1" and "\<exists>d2. ds = d1 @ d2"
    by (auto split: sum.splits)
  with daily_of_month_nonempty show ?thesis by auto
qed

lemma monthly_rows_valid_starts:
  assumes "monthly_rows sd n gm = Inr rows"
  shows "\<forall>r\<in>set rows. valid_month_start r"
proof -
  let ?ms = "get_month_starts sd n"
  from assms have "map month_start rows = map snd (enumerate1 ?ms)"
    unfolding monthly_rows_def by (rule months_loop_columns [THEN conjunct2])
  also have "\<dots> = ?ms" by (simp add: enumerate1_def)
  finally have eq: "map month_start rows = ?ms" .
  show ?thesis
  proof
    fix r assume "r \<in> set rows"
    then have "month_start r \<in> set (map month_start rows)" by simp
    then have "month_start r \<in> set ?ms" by (simp only: eq)
    from get_month_starts_valid [OF this] show "valid_month_start r"
      by (simp add: valid_month_start_def)
  qed
qed

lemma monthly_rows_length:
  assumes "monthly_rows sd n gm = Inr rows"
  shows "map month_record.month_index rows = map int [1..<Suc n]"
proof -
  let ?ms = "get_month_starts sd n"
  from assms have "map month_record.month_index rows = map fst (enumerate1 ?ms)"
    unfolding monthly_rows_def by (rule months_loop_columns [THEN conjunct1])
  also have "\<dots> = map (\<lambda>i. int i + 1) [0..<n]"
    by (simp add: enumerate1_def length_get_month_starts)
  also have "\<dots> = map int (map Suc [0..<n])" by simp
  also have "map Suc [0..<n] = [1..<Suc n]" by (simp only: map_Suc_upt One_nat_def)
  finally show ?thesis .
qed

lemma simulate_cfg_Inr:
  "simulate_cfg sd n gm = Inr (monthly_df, weekly_df, daily_df) \<longleftrightarrow>
     monthly_rows sd n gm = Inr monthly_df \<and>
     (\<exists>daily_list. daily_loop monthly_df = Inr daily_list \<and> daily_list \<noteq> [] \<and>
        daily_df = map add_week_start daily_list \<and>
        weekly_df = groupby_week_sum daily_df)"
  by (auto simp: simulate_cfg_def Let_def split: sum.splits)

lemma simulate_cfg_valid:
  assumes "valid_model gm" and "0 < n"
  shows "\<exists>monthly_df weekly_df daily_df.
           simulate_cfg sd n gm = Inr (monthly_df, weekly_df, daily_df)"
proof -
  obtain rows where rows: "monthly_rows sd n gm = Inr rows"
    unfolding monthly_rows_def using months_loop_valid [OF assms(1)] by blast
  from monthly_rows_length [OF rows] assms(2) have ne: "rows \<noteq> []" by auto
  obtain ds where ds: "daily_loop rows = Inr ds"
    using daily_loop_valid [OF monthly_rows_valid_starts [OF rows]] by blast
  from daily_loop_nonempty [OF ds ne] rows ds show ?thesis
    by (simp add: simulate_cfg_Inr)
qed

subsection \<open>The default run\<close>

lemma month_starts_default:
  "get_month_starts START_DATE MONTHS =
     [Date 2025 11 1, Date 2025 12 1, Date 2026 1 1, Date 2026 2 1, Date 2026 3 1,
      Date 2026 4 1, Date 2026 5 1, Date 2026 6 1, Date 2026 7 1, Date 2026 8 1,
      Date 2026 9 1, Date 2026 10 1]"
  by code_simp

lemma enumerated_month_starts_default:
  "enumerate1 (get_month_starts START_DATE MONTHS) =
     [(1, Date 2025 11 1), (2, Date 2025 12 1), (3, Date 2026 1 1), (4, Date 2026 2 1),
      (5, Date 2026 3 1), (6, Date 2026 4 1), (7, Date 2026 5 1), (8, Date 2026 6 1),
      (9, Date 2026 7 1), (10, Date 2026 8 1), (11, Date 2026 9 1), (12, Date 2026 10 1)]"
  by code_simp

lemma simulate_Inr_monthly:
  assumes "simulate gm = Inr (monthly_df, weekly_df, daily_df)"
  shows "months_loop gm STARTING_PLAYERS 0 0
           (enumerate1 (get_month_starts START_DATE MONTHS)) = Inr monthly_df"
  using assms by (simp add: simulate_def simulate_cfg_Inr monthly_rows_def)

lemma simulate_first_month:
  assumes "valid_model gm"
  shows "\<exists>monthly_df weekly_df daily_df row rest.
           simulate gm = Inr (monthly_df, weekly_df, daily_df) \<and> monthly_df = row # rest \<and>
           month_body gm STARTING_PLAYERS 0 0 1 (Date 2025 11 1) = Inr row"
proof -
  obtain m w d where sim: "simulate gm = Inr (m, w, d)"
    using simulate_cfg_valid [OF assms, of MONTHS START_DATE]
    by (auto simp: simulate_def MONTHS_def)
  obtain ms where ms: "enumerate1 (get_month_starts START_DATE MONTHS) = (1, Date 2025 11 1) # ms"
    by (simp add: enumerated_month_starts_default)
  from simulate_Inr_monthly [OF sim] ms
  have "months_loop gm STARTING_PLAYERS 0 0 ((1, Date 2025 11 1) # ms) = Inr m" by simp
  then obtain row rest where "m = row # rest"
    "month_body gm STARTING_PLAYERS 0 0 1 (Date 2025 11 1) = Inr row"
    by (rule months_loop_Inr_Cons)
  with sim show ?thesis by blast
qed

lemma first_row_retained_plus_new:
  "month_body ''retained_plus_new'' STARTING_PLAYERS 0 0 1 (Date 2025 11 1) =
     Inr (month_row ''retained_plus_new'' 1 (Date 2025 11 1) 3 600 3000 3600 0 0)"
  by (simp add: month_body_def player_counts_def get_growth_for_month_def
      get_growth_for_month_in_def GROWTH_RATES_MAP_def STARTING_PLAYERS_def
      RETENTION_RATE_def Let_def)

lemma first_row_simple_growth:
  "month_body ''simple_growth'' STARTING_PLAYERS 0 0 1 (Date 2025 11 1) =
     Inr (month_row ''simple_growth'' 1 (Date 2025 11 1) 3 600 3400 4000 0 0)"
  by (simp add: month_body_def player_counts_def get_growth_for_month_def
      get_growth_for_month_in_def GROWTH_RATES_MAP_def STARTING_PLAYERS_def
      RETENTION_RATE_def Let_def)

lemmas consts_defs = AVG_DEPOSIT_def WAGER_MULTIPLIER_def CASHBACK_PER_WAGER_FRAC_def
  RAKEBACK_PER_WAGER_FRAC_def HOUSE_EDGE_def CASHBACK_RATE_def RAKEBACK_RATE_def
  CAP_RATE_def ACQ_COST_PER_PLAYER_def

subsection \<open>Claims about the monthly table\<close>

text \<open>
  Claim C1. In every row of the monthly table that \<open>simulate\<close> returns, under either
  growth model, the cashrake actually paid is the smaller of the expected total cashrake
  and the cap remaining before the month; hence it exceeds neither.
\<close>

theorem actual_cashrake_paid_is_min:
  assumes "simulate gm = Inr (monthly_df, weekly_df, daily_df)" and "r \<in> set monthly_df"
  shows "month_record.actual_cashrake_paid r =
           min (month_record.expected_total_cashrake r) (remaining_cap_before r) \<and>
         month_record.actual_cashrake_paid r \<le> month_record.expected_total_cashrake r \<and>
         month_record.actual_cashrake_paid r \<le> remaining_cap_before r"
proof -
  obtain i s gp ret new tot ld0 lcu0 where "r = month_row gm i s gp ret new tot ld0 lcu0"
    using months_loop_rows [OF simulate_Inr_monthly [OF assms(1)] assms(2)] by blast
  then show ?thesis by (simp add: month_row_def Let_def)
qed

theorem actual_cashrake_paid_is_min_witness:
  "\<exists>monthly_df weekly_df daily_df r.
     simulate ''retained_plus_new'' = Inr (monthly_df, weekly_df, daily_df) \<and>
     r \<in> set monthly_df \<and> month_record.month_index r = 1 \<and>
     month_record.expected_total_cashrake r = 23184 \<and> remaining_cap_before r = 118800 \<and>
     month_record.actual_cashrake_paid r = 23184 \<and>
     month_record.actual_cashrake_paid r =
       min (month_record.expected_total_cashrake r) (remaining_cap_before r) \<and>
     month_record.actual_cashrake_paid r \<le> month_record.expected_total_cashrake r \<and>
     month_record.actual_cashrake_paid r \<le> remaining_cap_before r"
proof -
  have "valid_model ''retained_plus_new''" by (simp add: valid_model_def)
  from simulate_first_month [OF this] obtain m w d row rest where
    sim: "simulate ''retained_plus_new'' = Inr (m, w, d)" and m: "m = row # rest" and
    row: "month_body ''retained_plus_new'' STARTING_PLAYERS 0 0 1 (Date 2025 11 1) = Inr row"
    by blast
  have mem: "row \<in> set m" using m by simp
  have "row = month_row ''retained_plus_new'' 1 (Date 2025 11 1) 3 600 3000 3600 0 0"
    using row by (simp add: first_row_retained_plus_new)
  then have vals: "month_record.month_index row = 1"
    "month_record.expected_total_cashrake row = 23184" "remaining_cap_before row = 118800"
    "month_record.actual_cashrake_paid row = 23184"
    by (simp_all add: month_row_def Let_def consts_defs)
  from actual_cashrake_paid_is_min [OF sim mem] vals sim mem show ?thesis by blast
qed

text \<open>
  Claim C2. Over the monthly table of \<open>simulate\<close>, \<open>lifetime_cap_used\<close> never decreases
  from one month to the next; in every month it is at most that month's \<open>lifetime_cap\<close>,
  which is \<open>lifetime_deposits\<close> times the cap rate; and \<open>remaining_cap_after\<close> is
  \<open>max 0 (lifetime_cap - lifetime_cap_used)\<close>.
\<close>

theorem lifetime_cap_used_monotone_bounded:
  assumes "simulate gm = Inr (monthly_df, weekly_df, daily_df)"
  shows "sorted (map lifetime_cap_used monthly_df) \<and>
         (\<forall>r\<in>set monthly_df.
            lifetime_cap r = lifetime_deposits r * CAP_RATE \<and>
            lifetime_cap_used r \<le> lifetime_cap r \<and>
            remaining_cap_after r = max 0 (lifetime_cap r - lifetime_cap_used r))"
proof -
  note loop = simulate_Inr_monthly [OF assms]
  have start: "(0::rat) \<le> STARTING_PLAYERS" "(0::rat) \<le> 0 * CAP_RATE"
    by (simp_all add: STARTING_PLAYERS_def)
  from months_loop_cap_invariant [OF loop start]
  have inv: "sorted (0 # map lifetime_cap_used monthly_df)"
    "\<forall>r\<in>set monthly_df. lifetime_cap_used r \<le> lifetime_cap r" by simp_all
  have row: "lifetime_cap r = lifetime_deposits r * CAP_RATE \<and>
      remaining_cap_after r = max 0 (lifetime_cap r - lifetime_cap_used r)"
    if mem: "r \<in> set monthly_df" for r
  proof -
    obtain i s gp ret new tot ld0 lcu0 where "r = month_row gm i s gp ret new tot ld0 lcu0"
      using months_loop_rows [OF loop mem] by blast
    then show ?thesis by (simp add: month_row_def Let_def)
  qed
  from inv(1) have "sorted (map lifetime_cap_used monthly_df)" by simp
  with inv(2) row show ?thesis by blast
qed

theorem lifetime_cap_used_monotone_bounded_witness:
  "\<exists>monthly_df weekly_df daily_df r.
     simulate ''simple_growth'' = Inr (monthly_df, weekly_df, daily_df) \<and>
     r \<in> set monthly_df \<and> month_record.month_index r = 1 \<and>
     sorted (map lifetime_cap_used monthly_df) \<and>
     lifetime_deposits r = 400000 \<and> lifetime_cap r = 132000 \<and>
     lifetime_cap_used r = 25760 \<and> remaining_cap_after r = 106240 \<and>
     lifetime_cap r = lifetime_deposits r * CAP_RATE \<and>
     lifetime_cap_used r \<le> lifetime_cap r \<and>
     remaining_cap_after r = max 0 (lifetime_cap r - lifetime_cap_used r)"
proof -
  have "valid_model ''simple_growth''" by (simp add: valid_model_def)
  from simulate_first_month [OF this] obtain m w d row rest where
    sim: "simulate ''simple_growth'' = Inr (m, w, d)" and m: "m = row # rest" and
    row: "month_body ''simple_growth'' STARTING_PLAYERS 0 0 1 (Date 2025 11 1) = Inr row"
    by blast
  have mem: "row \<in> set m" using m by simp
  have "row = month_row ''simple_growth'' 1 (Date 2025 11 1) 3 600 3400 4000 0 0"
    using row by (simp add: first_row_simple_growth)
  then have vals: "month_record.month_index row = 1"
    "lifetime_deposits row = 400000" "lifetime_cap row = 132000"
    "lifetime_cap_used row = 25760" "remaining_cap_after row = 106240"
    by (simp_all add: month_row_def Let_def consts_defs)
  from lifetime_cap_used_monotone_bounded [OF sim] mem
  have "sorted (map lifetime_cap_used m)"
    "lifetime_cap row = lifetime_deposits row * CAP_RATE"
    "lifetime_cap_used row \<le> lifetime_cap row"
    "remaining_cap_after row = max 0 (lifetime_cap row - lifetime_cap_used row)"
    by blast+
  with vals sim mem show ?thesis by blast
qed

text \<open>
  Claim C5. A growth model other than \<open>retained_plus_new\<close> and \<open>simple_growth\<close> makes the
  body of the first month raise \<open>ValueError\<close>, so \<open>simulate\<close> returns that error and no
  table; given on the command line, the value is rejected by the argument parser, and
  \<open>main\<close> exits with status 2 without running \<open>simulate\<close>.
\<close>

theorem unknown_growth_model_aborts:
  assumes "gm \<noteq> ''retained_plus_new''" and "gm \<noteq> ''simple_growth''"
  shows "month_body gm STARTING_PLAYERS 0 0 1 (Date 2025 11 1) =
           Inl (ValueError ''Unknown growth_model'') \<and>
         simulate gm = Inl (ValueError ''Unknown growth_model'') \<and>
         parse_args (Some gm) = Inl (SystemExit 2) \<and>
         main (Some gm) = Inl (SystemExit 2)"
proof -
  have inv: "\<not> valid_model gm" using assms by (simp add: valid_model_def)
  have "enumerate1 (get_month_starts START_DATE MONTHS) \<noteq> []"
    by (simp add: enumerated_month_starts_default)
  from months_loop_invalid [OF inv this]
  have "simulate gm = Inl (ValueError ''Unknown growth_model'')"
    by (simp add: simulate_def simulate_cfg_def monthly_rows_def)
  moreover have "parse_args (Some gm) = Inl (SystemExit 2)"
    using assms by (simp add: parse_args_def growth_model_choices_def)
  ultimately show ?thesis
    by (simp add: main_def month_body_invalid [OF inv])
qed

theorem unknown_growth_model_aborts_witness:
  "month_body ''linear'' STARTING_PLAYERS 0 0 1 (Date 2025 11 1) =
     Inl (ValueError ''Unknown growth_model'') \<and>
   simulate ''linear'' = Inl (ValueError ''Unknown growth_model'') \<and>
   parse_args (Some ''linear'') = Inl (SystemExit 2) \<and>
   main (Some ''linear'') = Inl (SystemExit 2)"
  using unknown_growth_model_aborts [of "''linear''"] by simp

text \<open>
  Claim C6. The growth parameter of month 1, 2 and 3 is the table's value (3, 1.5 and 0.5),
  and of every month from 4 on the default 0.35; with any other table on the keys 1 to 3
  the months from 4 on still get the default.
\<close>

theorem growth_param_lookup:
  "get_growth_for_month 1 = 3 \<and> get_growth_for_month 2 = 3 / 2 \<and>
   get_growth_for_month 3 = 1 / 2 \<and>
   (\<forall>idx. idx \<in> dom GROWTH_RATES_MAP \<longrightarrow>
      get_growth_for_month idx = the (GROWTH_RATES_MAP idx)) \<and>
   (\<forall>idx. 4 \<le> idx \<longrightarrow> get_growth_for_month idx = 35 / 100) \<and>
   (\<forall>growth_map dflt idx. dom growth_map = {1, 2, 3} \<longrightarrow> 4 \<le> idx \<longrightarrow>
      get_growth_for_month_in growth_map dflt idx = dflt)"
proof -
  have "get_growth_for_month_in growth_map dflt idx = dflt"
    if "dom growth_map = {1, 2, 3}" and "4 \<le> idx" for growth_map dflt idx
    using that by (simp add: get_growth_for_month_in_def)
  moreover have "get_growth_for_month idx = 35 / 100" if "4 \<le> idx" for idx
    using that
    by (simp add: get_growth_for_month_def get_growth_for_month_in_def GROWTH_RATES_MAP_def
        DEFAULT_GROWTH_AFTER_def dom_def)
  moreover have "get_growth_for_month idx = the (GROWTH_RATES_MAP idx)"
    if "idx \<in> dom GROWTH_RATES_MAP" for idx
    using that by (simp add: get_growth_for_month_def get_growth_for_month_in_def)
  moreover have "get_growth_for_month 1 = 3" "get_growth_for_month 2 = 3 / 2"
    "get_growth_for_month 3 = 1 / 2"
    by (simp_all add: get_growth_for_month_def get_growth_for_month_in_def
        GROWTH_RATES_MAP_def dom_def)
  ultimately show ?thesis by blast
qed

theorem growth_param_lookup_witness:
  "(2::int) \<in> dom GROWTH_RATES_MAP \<and> get_growth_for_month 2 = the (GROWTH_RATES_MAP 2) \<and>
   the (GROWTH_RATES_MAP 2) = 3 / 2 \<and>
   get_growth_for_month 4 = 35 / 100 \<and> get_growth_for_month 12 = 35 / 100 \<and>
   dom (map_of [(1::int, 10::rat), (2, 20), (3, 30)]) = {1, 2, 3} \<and>
   get_growth_for_month_in (map_of [(1, 10), (2, 20), (3, 30)]) (35 / 100) 4 = 35 / 100"
proof -
  have d: "(2::int) \<in> dom GROWTH_RATES_MAP" by (simp add: GROWTH_RATES_MAP_def domIff)
  have v: "the (GROWTH_RATES_MAP 2) = 3 / 2" by (simp add: GROWTH_RATES_MAP_def)
  have d2: "dom (map_of [(1::int, 10::rat), (2, 20), (3, 30)]) = {1, 2, 3}" by auto
  from growth_param_lookup have
    a: "get_growth_for_month 2 = the (GROWTH_RATES_MAP 2)" if "2 \<in> dom GROWTH_RATES_MAP"
    using that by blast
  from growth_param_lookup have
    b: "get_growth_for_month idx = 35 / 100" if "4 \<le> idx" for idx
    using that by blast
  from growth_param_lookup have
    c: "get_growth_for_month_in growth_map dflt idx = dflt"
    if "dom growth_map = {1, 2, 3}" and "4 \<le> idx" for growth_map dflt idx
    using that by blast
  have b4: "get_growth_for_month 4 = 35 / 100" and b12: "get_growth_for_month 12 = 35 / 100"
    by (rule b, simp)+
  have c4: "get_growth_for_month_in (map_of [(1, 10), (2, 20), (3, 30)]) (35 / 100) 4 = 35 / 100"
    by (rule c [OF d2]) simp
  from d a [OF d] v b4 b12 d2 c4 show ?thesis by blast
qed

text \<open>
  Claim C7. Under \<open>retained_plus_new\<close> the first monthly row of \<open>simulate\<close> has growth
  parameter 3, 600 retained players, 3000 new players and 3600 players in total.
\<close>

theorem month1_retained_plus_new:
  "\<exists>monthly_df weekly_df daily_df r rest.
     simulate ''retained_plus_new'' = Inr (monthly_df, weekly_df, daily_df) \<and>
     monthly_df = r # rest \<and> month_record.month_index r = 1 \<and>
     growth_param r = 3 \<and> retained_players r = 600 \<and> new_players r = 3000 \<and>
     total_players r = 3600"
proof -
  have "valid_model ''retained_plus_new''" by (simp add: valid_model_def)
  from simulate_first_month [OF this] obtain m w d row rest where
    sim: "simulate ''retained_plus_new'' = Inr (m, w, d)" and m: "m = row # rest" and
    row: "month_body ''retained_plus_new'' STARTING_PLAYERS 0 0 1 (Date 2025 11 1) = Inr row"
    by blast
  have "row = month_row ''retained_plus_new'' 1 (Date 2025 11 1) 3 600 3000 3600 0 0"
    using row by (simp add: first_row_retained_plus_new)
  then have "month_record.month_index row = 1" "growth_param row = 3"
    "retained_players row = 600" "new_players row = 3000" "total_players row = 3600"
    by (simp_all add: month_row_def Let_def)
  with sim m show ?thesis by blast
qed

text \<open>
  Claim C8. Under \<open>simple_growth\<close> the first monthly row of \<open>simulate\<close> has
  \<open>1000 * (1 + 3) = 4000\<close> players in total, 600 retained players and
  \<open>max (4000 - 600) 0 = 3400\<close> new players.
\<close>

theorem month1_simple_growth:
  "\<exists>monthly_df weekly_df daily_df r rest.
     simulate ''simple_growth'' = Inr (monthly_df, weekly_df, daily_df) \<and>
     monthly_df = r # rest \<and> month_record.month_index r = 1 \<and>
     total_players r = 1000 * (1 + 3) \<and> total_players r = 4000 \<and>
     retained_players r = 600 \<and> new_players r = max (4000 - 600) 0 \<and>
     new_players r = 3400"
proof -
  have "valid_model ''simple_growth''" by (simp add: valid_model_def)
  from simulate_first_month [OF this] obtain m w d row rest where
    sim: "simulate ''simple_growth'' = Inr (m, w, d)" and m: "m = row # rest" and
    row: "month_body ''simple_growth'' STARTING_PLAYERS 0 0 1 (Date 2025 11 1) = Inr row"
    by blast
  have "row = month_row ''simple_growth'' 1 (Date 2025 11 1) 3 600 3400 4000 0 0"
    using row by (simp add: first_row_simple_growth)
  then have "month_record.month_index row = 1" "total_players row = 1000 * (1 + 3)"
    "total_players row = 4000"
    "retained_players row = 600" "new_players row = max (4000 - 600) 0"
    "new_players row = 3400"
    by (simp_all add: month_row_def Let_def)
  with sim m show ?thesis by blast
qed

text \<open>
  Claim C10. Every column of every monthly row of \<open>simulate\<close> other than \<open>net_profit\<close>
  is non-negative, under either growth model; \<open>net_profit\<close> is not: under
  \<open>retained_plus_new\<close> it is \<open>-42384\<close> in month 1.
\<close>

theorem monthly_fields_nonneg:
  "(\<forall>gm monthly_df weekly_df daily_df.
      simulate gm = Inr (monthly_df, weekly_df, daily_df) \<longrightarrow>
      (\<forall>r\<in>set monthly_df. nonneg_month r)) \<and>
   (\<exists>monthly_df weekly_df daily_df r rest.
      simulate ''retained_plus_new'' = Inr (monthly_df, weekly_df, daily_df) \<and>
      monthly_df = r # rest \<and> month_record.month_index r = 1 \<and>
      month_record.net_profit r = - 42384 \<and> month_record.net_profit r < 0)"
proof -
  have a: "\<forall>r\<in>set monthly_df. nonneg_month r"
    if "simulate gm = Inr (monthly_df, weekly_df, daily_df)"
    for gm monthly_df weekly_df daily_df
    using months_loop_nonneg [OF simulate_Inr_monthly [OF that]]
    by (simp add: STARTING_PLAYERS_def)
  have "valid_model ''retained_plus_new''" by (simp add: valid_model_def)
  from simulate_first_month [OF this] obtain m w d row rest where
    sim: "simulate ''retained_plus_new'' = Inr (m, w, d)" and m: "m = row # rest" and
    row: "month_body ''retained_plus_new'' STARTING_PLAYERS 0 0 1 (Date 2025 11 1) = Inr row"
    by blast
  have "row = month_row ''retained_plus_new'' 1 (Date 2025 11 1) 3 600 3000 3600 0 0"
    using row by (simp add: first_row_retained_plus_new)
  then have "month_record.month_index row = 1" "month_record.net_profit row = - 42384"
    "month_record.net_profit row < 0"
    by (simp_all add: month_row_def Let_def consts_defs)
  with sim m have "\<exists>monthly_df weekly_df daily_df r rest.
      simulate ''retained_plus_new'' = Inr (monthly_df, weekly_df, daily_df) \<and>
      monthly_df = r # rest \<and> month_record.month_index r = 1 \<and>
      month_record.net_profit r = - 42384 \<and> month_record.net_profit r < 0" by blast
  with a show ?thesis by blast
qed

theorem monthly_fields_nonneg_witness:
  "\<exists>monthly_df weekly_df daily_df r.
     simulate ''simple_growth'' = Inr (monthly_df, weekly_df, daily_df) \<and>
     r \<in> set monthly_df \<and> month_record.month_index r = 1 \<and> nonneg_month r \<and>
     month_record.net_profit r = - 49760"
proof -
  have "valid_model ''simple_growth''" by (simp add: valid_model_def)
  from simulate_first_month [OF this] obtain m w d row rest where
    sim: "simulate ''simple_growth'' = Inr (m, w, d)" and m: "m = row # rest" and
    row: "month_body ''simple_growth'' STARTING_PLAYERS 0 0 1 (Date 2025 11 1) = Inr row"
    by blast
  have mem: "row \<in> set m" using m by simp
  have "row = month_row ''simple_growth'' 1 (Date 2025 11 1) 3 600 3400 4000 0 0"
    using row by (simp add: first_row_simple_growth)
  then have vals: "month_record.month_index row = 1" "month_record.net_profit row = - 49760"
    by (simp_all add: month_row_def Let_def consts_defs)
  from monthly_fields_nonneg sim mem have "nonneg_month row" by blast
  with vals sim mem show ?thesis by blast
qed

subsection \<open>Claims about the daily table\<close>

lemma add_week_start_fields:
  "date (add_week_start d) = date d"
  "daily_record.month_index (add_week_start d) = daily_record.month_index d"
  "daily_record.players (add_week_start d) = daily_record.players d"
  "daily_record.deposits (add_week_start d) = daily_record.deposits d"
  "daily_record.total_wagering (add_week_start d) = daily_record.total_wagering d"
  "daily_record.gross_revenue (add_week_start d) = daily_record.gross_revenue d"
  "daily_record.expected_cashback (add_week_start d) = daily_record.expected_cashback d"
  "daily_record.expected_rakeback (add_week_start d) = daily_record.expected_rakeback d"
  "daily_record.expected_total_cashrake (add_week_start d) =
     daily_record.expected_total_cashrake d"
  "daily_record.actual_cashrake_paid (add_week_start d) = daily_record.actual_cashrake_paid d"
  "daily_record.acquisition_cost (add_week_start d) = daily_record.acquisition_cost d"
  "daily_record.net_profit (add_week_start d) = daily_record.net_profit d"
  "daily_row.week_start (add_week_start d) = week_start_of (date d)"
  by (simp_all add: add_week_start_def daily_record.defs)

lemma daily_of_month_index:
  assumes "daily_of_month r = Inr ds" and "d \<in> set ds"
  shows "daily_record.month_index d = month_record.month_index r"
  using assms
  by (auto simp: daily_of_month_def Let_def daily_entry_def split: sum.splits)

lemma daily_loop_indices:
  assumes "daily_loop rows = Inr ds" and "d \<in> set ds"
  shows "daily_record.month_index d \<in> month_record.month_index ` set rows"
  using assms
proof (induction rows arbitrary: ds)
  case Nil
  then show ?case by simp
next
  case (Cons r rows)
  from Cons.prems(1) obtain d1 d2 where
    p: "daily_of_month r = Inr d1" "daily_loop rows = Inr d2" "ds = d1 @ d2"
    by (auto split: sum.splits)
  from Cons.prems(2) p(3) consider "d \<in> set d1" | "d \<in> set d2" by auto
  then show ?case
  proof cases
    case 1
    from daily_of_month_index [OF p(1) 1] show ?thesis by simp
  next
    case 2
    from Cons.IH [OF p(2) 2] show ?thesis by auto
  qed
qed

lemma daily_loop_filter:
  assumes "daily_loop rows = Inr ds" and "distinct (map month_record.month_index rows)"
    and "r \<in> set rows"
  shows "daily_of_month r =
     Inr (filter (\<lambda>d. daily_record.month_index d = month_record.month_index r) ds)"
  using assms
proof (induction rows arbitrary: ds)
  case Nil
  then show ?case by simp
next
  case (Cons r0 rows)
  let ?P = "\<lambda>d. daily_record.month_index d = month_record.month_index r"
  from Cons.prems(1) obtain d1 d2 where
    p: "daily_of_month r0 = Inr d1" "daily_loop rows = Inr d2" "ds = d1 @ d2"
    by (auto split: sum.splits)
  from Cons.prems(2) have
    fresh: "month_record.month_index r0 \<notin> month_record.month_index ` set rows" and
    dist: "distinct (map month_record.month_index rows)" by simp_all
  show ?case
  proof (cases "r = r0")
    case True
    have "filter ?P d1 = d1"
      using daily_of_month_index [OF p(1)] True by (simp add: filter_id_conv)
    moreover have "filter ?P d2 = []"
      using daily_loop_indices [OF p(2)] fresh True
      unfolding filter_empty_conv by metis
    ultimately show ?thesis using p True by simp
  next
    case False
    with Cons.prems(3) have mem: "r \<in> set rows" by simp
    with fresh have "month_record.month_index r \<noteq> month_record.month_index r0"
      by (metis imageI)
    then have "filter ?P d1 = []"
      using daily_of_month_index [OF p(1)] by (auto simp: filter_empty_conv)
    with Cons.IH [OF p(2) dist mem] p(3) show ?thesis by simp
  qed
qed

lemma monthly_rows_distinct:
  assumes "monthly_rows sd n gm = Inr rows"
  shows "distinct (map month_record.month_index rows)"
  by (simp add: monthly_rows_length [OF assms] distinct_map)

lemma simulate_cfg_days_of_month:
  assumes "simulate_cfg sd n gm = Inr (monthly_df, weekly_df, daily_df)"
    and "r \<in> set monthly_df"
  shows "\<exists>ds. daily_of_month r = Inr ds \<and>
     filter (\<lambda>d. daily_record.month_index d = month_record.month_index r) daily_df =
       map add_week_start ds"
proof -
  from assms(1) obtain daily_list where
    m: "monthly_rows sd n gm = Inr monthly_df" and
    dl: "daily_loop monthly_df = Inr daily_list" and
    df: "daily_df = map add_week_start daily_list"
    by (auto simp: simulate_cfg_Inr)
  let ?k = "month_record.month_index r"
  have "filter (\<lambda>d. daily_record.month_index d = ?k) daily_df =
      map add_week_start (filter (\<lambda>d. daily_record.month_index d = ?k) daily_list)"
    by (simp add: df filter_map o_def add_week_start_fields)
  with daily_loop_filter [OF dl monthly_rows_distinct [OF m] assms(2)] show ?thesis
    by simp
qed


lemma sum_even_split:
  fixes x :: rat
  assumes "1 \<le> n"
  shows "sum_list (map (\<lambda>d. x / of_int n) [1..n]) = x"
proof -
  have "sum_list (map (\<lambda>d. x / of_int n) [1..n]) =
      of_nat (length [1..n]) * (x / of_int n)"
    by (rule sum_list_triv)
  also have "of_nat (length [1..n]) = (of_int n :: rat)" using assms by simp
  finally show ?thesis using assms by simp
qed

lemma daily_entries_dates:
  "map date (map add_week_start (map (daily_entry r y m n) [1..n])) = map (Date y m) [1..n]"
  by (simp add: o_def add_week_start_fields daily_entry_def)

lemma daily_entries_share:
  assumes "d \<in> set (map add_week_start (map (daily_entry r y m n) [1..n]))"
  shows "daily_share r n d"
  using assms by (auto simp: daily_share_def add_week_start_fields daily_entry_def)

lemma daily_entries_sums:
  assumes "1 \<le> n"
  shows "daily_sums_to r (map add_week_start (map (daily_entry r y m n) [1..n]))"
  unfolding daily_sums_to_def
  by (simp add: o_def add_week_start_fields daily_entry_def sum_even_split [OF assms])

lemma february_days: "days_in_month y 2 = (if isleap y then 29 else 28)"
  by (simp add: days_in_month_def mdays_def)

text \<open>
  Claim C3. Every daily row belongs to a month of the monthly table, and for every month
  the daily rows carrying its index are one per calendar day, from day 1 to the last day
  of that month (\<open>month_days\<close>, 29 for February in a leap year); each amount of each of
  these rows is the month's amount divided by the number of days, and each amount summed
  over them is the month's amount. The numbers are exact rationals here.
\<close>

theorem daily_disaggregation:
  assumes "simulate gm = Inr (monthly_df, weekly_df, daily_df)"
  shows "(\<forall>d\<in>set daily_df.
            daily_record.month_index d \<in> month_record.month_index ` set monthly_df) \<and>
         (\<forall>r\<in>set monthly_df.
            \<exists>ndays. month_days (year (month_start r)) (month (month_start r)) = Inr ndays \<and>
              ndays = days_in_month (year (month_start r)) (month (month_start r)) \<and>
              (month (month_start r) = 2 \<longrightarrow>
                 ndays = (if isleap (year (month_start r)) then 29 else 28)) \<and>
              map date (days_of_month_index (month_record.month_index r) daily_df) =
                map (Date (year (month_start r)) (month (month_start r))) [1..ndays] \<and>
              (\<forall>d\<in>set (days_of_month_index (month_record.month_index r) daily_df).
                 daily_share r ndays d) \<and>
              daily_sums_to r (days_of_month_index (month_record.month_index r) daily_df))"
proof -
  from assms have sim: "simulate_cfg START_DATE MONTHS gm = Inr (monthly_df, weekly_df, daily_df)"
    by (simp add: simulate_def)
  then obtain daily_list where
    m: "monthly_rows START_DATE MONTHS gm = Inr monthly_df" and
    dl: "daily_loop monthly_df = Inr daily_list" and
    df: "daily_df = map add_week_start daily_list"
    by (auto simp: simulate_cfg_Inr)
  have all: "\<forall>d\<in>set daily_df.
      daily_record.month_index d \<in> month_record.month_index ` set monthly_df"
    using daily_loop_indices [OF dl] by (auto simp: df add_week_start_fields)
  have each: "\<exists>ndays. month_days (year (month_start r)) (month (month_start r)) = Inr ndays \<and>
      ndays = days_in_month (year (month_start r)) (month (month_start r)) \<and>
      (month (month_start r) = 2 \<longrightarrow>
         ndays = (if isleap (year (month_start r)) then 29 else 28)) \<and>
      map date (days_of_month_index (month_record.month_index r) daily_df) =
        map (Date (year (month_start r)) (month (month_start r))) [1..ndays] \<and>
      (\<forall>d\<in>set (days_of_month_index (month_record.month_index r) daily_df).
         daily_share r ndays d) \<and>
      daily_sums_to r (days_of_month_index (month_record.month_index r) daily_df)"
    if mem: "r \<in> set monthly_df" for r
  proof -
    let ?y = "year (month_start r)" and ?m = "month (month_start r)"
    let ?n = "days_in_month ?y ?m"
    from monthly_rows_valid_starts [OF m] mem have v: "valid_month_start r" by blast
    then have md: "month_days ?y ?m = Inr ?n"
      by (simp add: valid_month_start_def month_days_valid)
    from simulate_cfg_days_of_month [OF sim mem] daily_of_month_valid [OF v]
    have ds: "days_of_month_index (month_record.month_index r) daily_df =
        map add_week_start (map (daily_entry r ?y ?m ?n) [1..?n])"
      by (simp add: days_of_month_index_def)
    have n1: "1 \<le> ?n" using days_in_month_bounds [of ?y ?m] by linarith
    have feb: "?m = 2 \<longrightarrow> ?n = (if isleap ?y then 29 else 28)"
      using february_days [of ?y] by simp
    have dates: "map date (days_of_month_index (month_record.month_index r) daily_df) =
        map (Date ?y ?m) [1..?n]"
      unfolding ds by (rule daily_entries_dates)
    have share: "\<forall>d\<in>set (days_of_month_index (month_record.month_index r) daily_df).
        daily_share r ?n d"
      unfolding ds using daily_entries_share by blast
    have sums: "daily_sums_to r (days_of_month_index (month_record.month_index r) daily_df)"
      unfolding ds by (rule daily_entries_sums [OF n1])
    from md feb dates share sums show ?thesis by blast
  qed
  from all each show ?thesis by blast
qed


theorem daily_disaggregation_witness:
  "\<exists>monthly_df weekly_df daily_df r.
     simulate ''retained_plus_new'' = Inr (monthly_df, weekly_df, daily_df) \<and>
     r \<in> set monthly_df \<and> month_record.month_index r = 1 \<and>
     month_start r = Date 2025 11 1 \<and> month_record.deposits r = 360000 \<and>
     month_days 2025 11 = Inr 30 \<and>
     map date (days_of_month_index 1 daily_df) = map (Date 2025 11) [1..30] \<and>
     daily_sums_to r (days_of_month_index 1 daily_df)"
proof -
  have "valid_model ''retained_plus_new''" by (simp add: valid_model_def)
  from simulate_first_month [OF this] obtain m w d row rest where
    sim: "simulate ''retained_plus_new'' = Inr (m, w, d)" and m: "m = row # rest" and
    row: "month_body ''retained_plus_new'' STARTING_PLAYERS 0 0 1 (Date 2025 11 1) = Inr row"
    by blast
  have mem: "row \<in> set m" using m by simp
  have "row = month_row ''retained_plus_new'' 1 (Date 2025 11 1) 3 600 3000 3600 0 0"
    using row by (simp add: first_row_retained_plus_new)
  then have vals: "month_record.month_index row = 1" "month_start row = Date 2025 11 1"
    "month_record.deposits row = 360000"
    by (simp_all add: month_row_def Let_def consts_defs)
  have n: "days_in_month 2025 11 = 30" by (simp add: days_in_month_def mdays_def)
  from daily_disaggregation [OF sim] mem obtain ndays where
    "month_days (year (month_start row)) (month (month_start row)) = Inr ndays"
    "ndays = days_in_month (year (month_start row)) (month (month_start row))"
    "map date (days_of_month_index (month_record.month_index row) d) =
       map (Date (year (month_start row)) (month (month_start row))) [1..ndays]"
    "daily_sums_to row (days_of_month_index (month_record.month_index row) d)"
    by blast
  with vals n have "month_days 2025 11 = Inr 30"
    "map date (days_of_month_index 1 d) = map (Date 2025 11) [1..30]"
    "daily_sums_to row (days_of_month_index 1 d)"
    by simp_all
  with vals sim mem show ?thesis by blast
qed

lemma enumerate1_month_starts:
  "enumerate1 (get_month_starts sd n) =
     map (\<lambda>i. (int i + 1, add_months (Date (year sd) (month sd) 1) (int i))) [0..<n]"
  by (simp add: enumerate1_def get_month_starts_def Let_def zip_map_map zip_same_conv_map)

lemma months_loop_pairs:
  assumes "months_loop gm cp ld lcu ms = Inr rows"
  shows "map (\<lambda>r. (month_record.month_index r, month_start r)) rows = ms"
proof -
  have "map (\<lambda>r. (month_record.month_index r, month_start r)) rows =
      zip (map month_record.month_index rows) (map month_start rows)"
    by (simp add: zip_map_map zip_same_conv_map)
  also have "\<dots> = zip (map fst ms) (map snd ms)"
    using months_loop_columns [OF assms] by simp
  also have "\<dots> = ms" by (rule zip_map_fst_snd)
  finally show ?thesis .
qed

lemma monthly_rows_start_of_index:
  assumes "monthly_rows sd n gm = Inr rows" and "r \<in> set rows"
  shows "month_start r =
     add_months (Date (year sd) (month sd) 1) (month_record.month_index r - 1)"
proof -
  from assms(2) have "(month_record.month_index r, month_start r) \<in>
      set (map (\<lambda>r. (month_record.month_index r, month_start r)) rows)" by auto
  also have "map (\<lambda>r. (month_record.month_index r, month_start r)) rows =
      enumerate1 (get_month_starts sd n)"
    using assms(1) unfolding monthly_rows_def by (rule months_loop_pairs)
  finally show ?thesis by (auto simp: enumerate1_month_starts)
qed

lemma add_months_zero:
  assumes "1 \<le> m" and "m \<le> 12"
  shows "add_months (Date y m 1) 0 = Date y m 1"
  using assms by (simp add: add_months_def)

lemma simulate_cfg_first_month_days:
  assumes "simulate_cfg sd n gm = Inr (monthly_df, weekly_df, daily_df)"
    and "1 \<le> month sd" and "month sd \<le> 12"
  shows "map date (days_of_month_index 1 daily_df) =
     map (Date (year sd) (month sd)) [1..days_in_month (year sd) (month sd)]"
proof -
  from assms(1) obtain daily_list where
    m: "monthly_rows sd n gm = Inr monthly_df" and
    dl: "daily_loop monthly_df = Inr daily_list" and ne: "daily_list \<noteq> []"
    by (auto simp: simulate_cfg_Inr)
  from dl ne have "monthly_df \<noteq> []" by auto
  then obtain r rest where rows: "monthly_df = r # rest" by (cases monthly_df) auto
  then have mem: "r \<in> set monthly_df" by simp
  have "0 < n" using monthly_rows_length [OF m] rows by (cases n) auto
  then have "\<exists>xs. map int [1..<Suc n] = 1 # xs"
    by (simp add: upt_conv_Cons del: upt_Suc)
  with monthly_rows_length [OF m] rows have idx: "month_record.month_index r = 1" by auto
  from monthly_rows_start_of_index [OF m mem] idx
  have start: "month_start r = Date (year sd) (month sd) 1"
    by (simp add: add_months_zero [OF assms(2,3)])
  from monthly_rows_valid_starts [OF m] mem have v: "valid_month_start r" by blast
  from simulate_cfg_days_of_month [OF assms(1) mem] daily_of_month_valid [OF v]
  have "days_of_month_index 1 daily_df =
      map add_week_start (map (daily_entry r (year sd) (month sd)
        (days_in_month (year sd) (month sd))) [1..days_in_month (year sd) (month sd)])"
    by (simp add: days_of_month_index_def idx start)
  then show ?thesis by (simp only: daily_entries_dates)
qed

text \<open>
  Claim C9. For any start date (with \<open>simulate_cfg\<close>, the body of \<open>simulate\<close> at a given
  start date and number of months), the start of month \<open>k\<close> is the first day of the
  calendar month \<open>k - 1\<close> months after the start date's month, and the daily rows of
  month 1 are the days of the start date's month from day 1 to its last day. In the
  default run they are the 30 days from 2025-11-01 to 2025-11-30, although the start date
  is 2025-11-23.
\<close>

theorem schedule_starts_on_first_of_month:
  "(\<forall>start_date months gm monthly_df weekly_df daily_df.
      simulate_cfg start_date months gm = Inr (monthly_df, weekly_df, daily_df) \<longrightarrow>
      1 \<le> month start_date \<longrightarrow> month start_date \<le> 12 \<longrightarrow>
      (\<forall>r\<in>set monthly_df.
         month_start r =
           Date (year start_date + (month start_date - 1 + (month_record.month_index r - 1)) div 12)
                ((month start_date - 1 + (month_record.month_index r - 1)) mod 12 + 1) 1) \<and>
      map date (days_of_month_index 1 daily_df) =
        map (Date (year start_date) (month start_date))
          [1..days_in_month (year start_date) (month start_date)]) \<and>
   (\<forall>gm monthly_df weekly_df daily_df.
      simulate gm = Inr (monthly_df, weekly_df, daily_df) \<longrightarrow>
      map date (days_of_month_index 1 daily_df) = map (Date 2025 11) [1..30] \<and>
      date (hd (days_of_month_index 1 daily_df)) = Date 2025 11 1 \<and>
      date (last (days_of_month_index 1 daily_df)) = Date 2025 11 30 \<and>
      length (days_of_month_index 1 daily_df) = 30)"
proof -
  have general: "(\<forall>r\<in>set monthly_df.
         month_start r =
           Date (year sd + (month sd - 1 + (month_record.month_index r - 1)) div 12)
                ((month sd - 1 + (month_record.month_index r - 1)) mod 12 + 1) 1) \<and>
      map date (days_of_month_index 1 daily_df) =
        map (Date (year sd) (month sd)) [1..days_in_month (year sd) (month sd)]"
    if sim: "simulate_cfg sd n gm = Inr (monthly_df, weekly_df, daily_df)"
      and lo: "1 \<le> month sd" and hi: "month sd \<le> 12"
    for sd n gm monthly_df weekly_df daily_df
  proof -
    from sim have m: "monthly_rows sd n gm = Inr monthly_df"
      by (simp add: simulate_cfg_Inr)
    have "\<forall>r\<in>set monthly_df. month_start r =
           Date (year sd + (month sd - 1 + (month_record.month_index r - 1)) div 12)
                ((month sd - 1 + (month_record.month_index r - 1)) mod 12 + 1) 1"
      using monthly_rows_start_of_index [OF m] by (simp add: add_months_def)
    with simulate_cfg_first_month_days [OF sim lo hi] show ?thesis by blast
  qed
  have default: "map date (days_of_month_index 1 daily_df) = map (Date 2025 11) [1..30] \<and>
      date (hd (days_of_month_index 1 daily_df)) = Date 2025 11 1 \<and>
      date (last (days_of_month_index 1 daily_df)) = Date 2025 11 30 \<and>
      length (days_of_month_index 1 daily_df) = 30"
    if sim: "simulate gm = Inr (monthly_df, weekly_df, daily_df)"
    for gm monthly_df weekly_df daily_df
  proof -
    from sim have "simulate_cfg START_DATE MONTHS gm = Inr (monthly_df, weekly_df, daily_df)"
      by (simp add: simulate_def)
    from simulate_cfg_first_month_days [OF this]
    have dates: "map date (days_of_month_index 1 daily_df) = map (Date 2025 11) [1..30]"
      by (simp add: START_DATE_def days_in_month_def mdays_def)
    let ?ds = "days_of_month_index 1 daily_df"
    have len: "length ?ds = 30"
      using arg_cong [OF dates, of length] by simp
    then have ne: "?ds \<noteq> []" by auto
    have "date (hd ?ds) = hd (map date ?ds)" using ne by (simp add: hd_map)
    also have "\<dots> = Date 2025 11 1" unfolding dates by (simp add: upto.simps)
    finally have h: "date (hd ?ds) = Date 2025 11 1" .
    have "date (last ?ds) = last (map date ?ds)" using ne by (simp add: last_map)
    also have "\<dots> = Date 2025 11 30" unfolding dates by (simp add: upto_rec2)
    finally have l: "date (last ?ds) = Date 2025 11 30" .
    from dates h l len show ?thesis by blast
  qed
  from general default show ?thesis by blast
qed

theorem schedule_starts_on_first_of_month_witness:
  "\<exists>monthly_df weekly_df daily_df.
     simulate_cfg (Date 2024 2 15) 3 ''simple_growth'' = Inr (monthly_df, weekly_df, daily_df) \<and>
     (1::int) \<le> month (Date 2024 2 15) \<and> month (Date 2024 2 15) \<le> 12 \<and>
     map date (days_of_month_index 1 daily_df) = map (Date 2024 2) [1..29]"
proof -
  have "valid_model ''simple_growth''" by (simp add: valid_model_def)
  from simulate_cfg_valid [OF this, of 3 "Date 2024 2 15"] obtain m w d where
    sim: "simulate_cfg (Date 2024 2 15) 3 ''simple_growth'' = Inr (m, w, d)" by auto
  have n: "days_in_month 2024 2 = 29" by (simp add: days_in_month_def mdays_def isleap_def)
  from schedule_starts_on_first_of_month sim
  have "map date (days_of_month_index 1 d) =
      map (Date (year (Date 2024 2 15)) (month (Date 2024 2 15)))
        [1..days_in_month (year (Date 2024 2 15)) (month (Date 2024 2 15))]"
    by (simp del: upto.simps)
  with n sim show ?thesis by simp
qed

subsection \<open>Calendar weeks\<close>

lemma date_lt_irrefl: "\<not> date_lt a a"
  by (simp add: date_lt_def)

lemma date_lt_trans: "date_lt a b \<Longrightarrow> date_lt b c \<Longrightarrow> date_lt a c"
  by (auto simp: date_lt_def)

lemma date_lt_total: "a \<noteq> b \<Longrightarrow> \<not> date_lt a b \<Longrightarrow> date_lt b a"
  by (cases a; cases b) (auto simp: date_lt_def)














subsection \<open>Grouping by week\<close>

lemma group_key_simps:
  "weekly_record.week_start (new_group d) = daily_row.week_start d"
  "weekly_record.week_start (add_to_group w d) = weekly_record.week_start w"
  by (simp_all add: new_group_def add_to_group_def)

lemma keys_group_insert:
  "set (map weekly_record.week_start (group_insert d ws)) =
     insert (daily_row.week_start d) (set (map weekly_record.week_start ws))"
  by (induction ws) (auto simp: group_key_simps)

lemma sorted_group_insert:
  assumes "sorted_wrt date_lt (map weekly_record.week_start ws)"
  shows "sorted_wrt date_lt (map weekly_record.week_start (group_insert d ws))"
  using assms
proof (induction ws)
  case Nil
  show ?case by simp
next
  case (Cons w ws)
  let ?k = "daily_row.week_start d" and ?kw = "weekly_record.week_start w"
  from Cons.prems have
    above: "\<forall>k\<in>set (map weekly_record.week_start ws). date_lt ?kw k" and
    rest: "sorted_wrt date_lt (map weekly_record.week_start ws)" by simp_all
  consider "?k = ?kw" | "?k \<noteq> ?kw" "date_lt ?k ?kw" | "?k \<noteq> ?kw" "\<not> date_lt ?k ?kw"
    by blast
  then show ?case
  proof cases
    case 1
    with Cons.prems show ?thesis by (simp add: group_key_simps)
  next
    case 2
    have "\<forall>k\<in>set (map weekly_record.week_start ws). date_lt ?k k"
      using above date_lt_trans [OF 2(2)] by blast
    with 2 Cons.prems show ?thesis by (simp add: group_key_simps)
  next
    case 3
    from date_lt_total [OF 3] have "date_lt ?kw ?k" .
    then have "\<forall>k\<in>set (map weekly_record.week_start (group_insert d ws)). date_lt ?kw k"
      using above unfolding keys_group_insert by blast
    with 3 Cons.IH [OF rest] show ?thesis by simp
  qed
qed



lemma groupby_fold_keys:
  "set (map weekly_record.week_start (foldl (\<lambda>ws d. group_insert d ws) ws0 ds)) =
     set (map weekly_record.week_start ws0) \<union> set (map daily_row.week_start ds)"
proof (induction ds arbitrary: ws0)
  case Nil
  show ?case by simp
next
  case (Cons d ds)
  have "set (map weekly_record.week_start (foldl (\<lambda>ws d. group_insert d ws) ws0 (d # ds))) =
      set (map weekly_record.week_start (group_insert d ws0)) \<union>
      set (map daily_row.week_start ds)"
    using Cons.IH [of "group_insert d ws0"] by simp
  then show ?case unfolding keys_group_insert by auto
qed

lemma groupby_fold_sorted:
  assumes "sorted_wrt date_lt (map weekly_record.week_start ws0)"
  shows "sorted_wrt date_lt
     (map weekly_record.week_start (foldl (\<lambda>ws d. group_insert d ws) ws0 ds))"
  using assms
proof (induction ds arbitrary: ws0)
  case Nil
  then show ?case by simp
next
  case (Cons d ds)
  from Cons.IH [OF sorted_group_insert [OF Cons.prems]] show ?case by simp
qed

lemma sorted_keys_unique:
  assumes "sorted_wrt date_lt (map weekly_record.week_start ws)" and "w \<in> set ws"
  shows "filter (\<lambda>w'. weekly_record.week_start w' = weekly_record.week_start w) ws = [w]"
  using assms
proof (induction ws)
  case Nil
  then show ?case by simp
next
  case (Cons w0 ws)
  from Cons.prems(1) have
    above: "\<forall>w'\<in>set ws. date_lt (weekly_record.week_start w0) (weekly_record.week_start w')"
    and rest: "sorted_wrt date_lt (map weekly_record.week_start ws)" by simp_all
  have ne: "weekly_record.week_start w' \<noteq> weekly_record.week_start w0" if "w' \<in> set ws" for w'
    using above that date_lt_irrefl by metis
  show ?case
  proof (cases "w = w0")
    case True
    have "filter (\<lambda>w'. weekly_record.week_start w' = weekly_record.week_start w0) ws = []"
      using ne by (simp add: filter_empty_conv)
    with True show ?thesis by simp
  next
    case False
    with Cons.prems(2) have mem: "w \<in> set ws" by simp
    from ne [OF mem] Cons.IH [OF rest mem] show ?thesis by simp
  qed
qed



subsection \<open>The weekly table over exact rationals\<close>



lemma groupby_week_sum_keys:
  "set (map weekly_record.week_start (groupby_week_sum ds)) =
     set (map daily_row.week_start ds)"
  unfolding groupby_week_sum_def groupby_fold_keys by simp

lemma groupby_week_sum_sorted:
  "sorted_wrt date_lt (map weekly_record.week_start (groupby_week_sum ds))"
  unfolding groupby_week_sum_def by (rule groupby_fold_sorted) simp

lemma groupby_week_sum_unique:
  assumes "d \<in> set ds"
  shows "\<exists>!w. w \<in> set (groupby_week_sum ds) \<and>
           weekly_record.week_start w = daily_row.week_start d"
proof -
  let ?ws = "groupby_week_sum ds"
  from assms have "daily_row.week_start d \<in> set (map weekly_record.week_start ?ws)"
    unfolding groupby_week_sum_keys by simp
  then obtain w where w: "w \<in> set ?ws" "weekly_record.week_start w = daily_row.week_start d"
    by auto
  have "w' = w"
    if "w' \<in> set ?ws" and "weekly_record.week_start w' = daily_row.week_start d" for w'
  proof -
    from that w(2) have "w' \<in> set (filter
        (\<lambda>x. weekly_record.week_start x = weekly_record.week_start w) ?ws)" by simp
    then show ?thesis
      unfolding sorted_keys_unique [OF groupby_week_sum_sorted w(1)] by simp
  qed
  with w show ?thesis by blast
qed

lemma groupby_week_sum_nonempty:
  assumes "w \<in> set (groupby_week_sum ds)"
  shows "week_of (weekly_record.week_start w) ds \<noteq> []"
proof -
  from assms have "weekly_record.week_start w \<in> set (map weekly_record.week_start
      (groupby_week_sum ds))" by simp
  then obtain d where "d \<in> set ds" "daily_row.week_start d = weekly_record.week_start w"
    unfolding groupby_week_sum_keys by auto
  then show ?thesis by (auto simp: week_of_def filter_empty_conv)
qed



subsection \<open>Grouping by week in doubles\<close>

lemma date_lt_asym: "date_lt a b \<Longrightarrow> \<not> date_lt b a"
  using date_lt_trans [of a b a] date_lt_irrefl [of a] by blast

lemma group_key_fl: "weekly_record.week_start (add_to_group_fl w d) = weekly_record.week_start w"
  by (simp add: add_to_group_fl_def)

lemma keys_group_insert_fl:
  "set (map weekly_record.week_start (group_insert_fl d ws)) =
     insert (daily_row.week_start d) (set (map weekly_record.week_start ws))"
  by (induction ws) (auto simp: group_key_simps group_key_fl)

lemma sorted_group_insert_fl:
  assumes "sorted_wrt date_lt (map weekly_record.week_start ws)"
  shows "sorted_wrt date_lt (map weekly_record.week_start (group_insert_fl d ws))"
  using assms
proof (induction ws)
  case Nil
  show ?case by simp
next
  case (Cons w ws)
  let ?k = "daily_row.week_start d" and ?kw = "weekly_record.week_start w"
  from Cons.prems have
    above: "\<forall>k\<in>set (map weekly_record.week_start ws). date_lt ?kw k" and
    rest: "sorted_wrt date_lt (map weekly_record.week_start ws)" by simp_all
  consider "?k = ?kw" | "?k \<noteq> ?kw" "date_lt ?k ?kw" | "?k \<noteq> ?kw" "\<not> date_lt ?k ?kw"
    by blast
  then show ?case
  proof cases
    case 1
    with Cons.prems show ?thesis by (simp add: group_key_fl)
  next
    case 2
    have "\<forall>k\<in>set (map weekly_record.week_start ws). date_lt ?k k"
      using above date_lt_trans [OF 2(2)] by blast
    with 2 Cons.prems show ?thesis by (simp add: group_key_simps)
  next
    case 3
    from date_lt_total [OF 3] have "date_lt ?kw ?k" .
    then have "\<forall>k\<in>set (map weekly_record.week_start (group_insert_fl d ws)). date_lt ?kw k"
      using above unfolding keys_group_insert_fl by blast
    with 3 Cons.IH [OF rest] show ?thesis by simp
  qed
qed


lemma groupby_fl_snoc:
  "groupby_week_sum_fl (ds @ [d]) = group_insert_fl d (groupby_week_sum_fl ds)"
  by (simp add: groupby_week_sum_fl_def)

lemma groupby_fl_keys:
  "set (map weekly_record.week_start (groupby_week_sum_fl ds)) =
     set (map daily_row.week_start ds)"
proof (induction ds rule: rev_induct)
  case Nil
  show ?case by (simp add: groupby_week_sum_fl_def)
next
  case (snoc d ds)
  then show ?case unfolding groupby_fl_snoc keys_group_insert_fl by auto
qed

lemma groupby_fl_sorted:
  "sorted_wrt date_lt (map weekly_record.week_start (groupby_week_sum_fl ds))"
proof (induction ds rule: rev_induct)
  case Nil
  show ?case by (simp add: groupby_week_sum_fl_def)
next
  case (snoc d ds)
  then show ?case unfolding groupby_fl_snoc by (rule sorted_group_insert_fl)
qed






lemma groupby_fl_unique:
  assumes "d \<in> set ds"
  shows "\<exists>!w. w \<in> set (groupby_week_sum_fl ds) \<and>
           weekly_record.week_start w = daily_row.week_start d"
proof -
  let ?ws = "groupby_week_sum_fl ds"
  from assms have "daily_row.week_start d \<in> set (map weekly_record.week_start ?ws)"
    unfolding groupby_fl_keys by simp
  then obtain w where w: "w \<in> set ?ws" "weekly_record.week_start w = daily_row.week_start d"
    by auto
  have "w' = w"
    if "w' \<in> set ?ws" and "weekly_record.week_start w' = daily_row.week_start d" for w'
  proof -
    from that w(2) have "w' \<in> set (filter
        (\<lambda>x. weekly_record.week_start x = weekly_record.week_start w) ?ws)" by simp
    then show ?thesis
      unfolding sorted_keys_unique [OF groupby_fl_sorted w(1)] by simp
  qed
  with w show ?thesis by blast
qed










subsection \<open>Evaluating double operations\<close>

lemma floor_numeral_div: "\<lfloor>numeral a / numeral b :: rat\<rfloor> = numeral a div numeral b"
  using floor_divide_of_int_eq [of "numeral a" "numeral b", where ?'a = rat] by simp

lemma ceiling_numeral_div:
  "\<lceil>numeral a / numeral b :: rat\<rceil> = - (- numeral a div numeral b)"
  using floor_divide_of_int_eq [of "- numeral a" "numeral b", where ?'a = rat]
  by (simp add: ceiling_def)

lemmas fl_eval = dadd_def dsub_def dmul_def ddiv_def fl_def ulp_def round_to_def
  round_half_even_def nearest_even_def ilog2_def pow2_def compute_bitlen
  floor_numeral_div ceiling_numeral_div

text \<open>
  Some well-known doubles: 0.1, \<open>0.1 + 0.2 = 0.30000000000000004\<close>, a tie rounded to
  the even significand in both directions, and a negative number.
\<close>

lemma fl_examples:
  "fl (1 / 10) = 3602879701896397 / 36028797018963968"
  "dadd (fl (1 / 10)) (fl (2 / 10)) = 1351079888211149 / 4503599627370496"
  "fl (2 ^ 53 + 1) = 2 ^ 53"
  "fl (2 ^ 53 + 3) = 2 ^ 53 + 4"
  "fl (- (1 / 3)) = - (6004799503160661 / 18014398509481984)"
  by (simp_all add: fl_eval)

subsection \<open>The monthly and daily loops in doubles\<close>









subsection \<open>The week of 2025-11-03 in the default run\<close>













subsection \<open>The weekly claim\<close>




end
